theory Spec2Isabelle
  imports Complex_Main "HOL-Library.Product_Lexorder"
begin

section \<open>Text primitives of the script\<close>

text \<open>
  Python \<open>str\<close> values are modelled as \<open>string\<close>, one \<open>char\<close> per code point; the
  model covers the code points below 256, which is enough for every literal of
  \<open>parseStatements.py\<close> (the two non-ASCII letters of the rule tables are U+00F4 and
  U+00F6).
\<close>

fun starts_with :: "string \<Rightarrow> string \<Rightarrow> bool" where
  "starts_with [] s = True"
| "starts_with (p # ps) [] = False"
| "starts_with (p # ps) (c # cs) = (p = c \<and> starts_with ps cs)"

text \<open>\<open>contains p s\<close> is Python's \<open>p in s\<close> on strings.\<close>

fun contains :: "string \<Rightarrow> string \<Rightarrow> bool" where
  "contains p [] = (p = [])"
| "contains p (c # cs) = (starts_with p (c # cs) \<or> contains p cs)"

text \<open>
  \<open>str_remove old s\<close> is \<open>s.replace(old, "")\<close> for a non-empty \<open>old\<close>: the occurrences
  of \<open>old\<close> are found from left to right without overlap and dropped. The counter of
  \<open>remove_aux\<close> is the number of characters of the current occurrence still to skip.
\<close>

fun remove_aux :: "string \<Rightarrow> nat \<Rightarrow> string \<Rightarrow> string" where
  "remove_aux old k [] = []"
| "remove_aux old (Suc k) (c # cs) = remove_aux old k cs"
| "remove_aux old 0 (c # cs) =
     (if old \<noteq> [] \<and> starts_with old (c # cs) then remove_aux old (length old - 1) cs
      else c # remove_aux old 0 cs)"

definition str_remove :: "string \<Rightarrow> string \<Rightarrow> string" where
  "str_remove old s = remove_aux old 0 s"

section \<open>The two categorizers\<close>

subsection \<open>Operation style: \<open>clean_bank_operation_and_categorize\<close>\<close>

type_synonym bank_rule = "string \<times> string option \<times> string \<times> string"

definition bank_categories :: "bank_rule list" where
  "bank_categories =
   [(''Distalmotion'', None, ''Salary'', ''''),
    (''Duol'', None, ''Chant Cred'', ''Duol''),
    (''INSTITUT LE CHATELARD'', None, ''Chant Cred'', ''Chatelard''),
    (''Leni'', None, ''Kids Deb'', ''''),
    (''Assura-Basis'', None, ''Health'', ''''),
    (''Etat de Vaud Imp'' @ [CHR 0xF4] @ ''ts'', None, ''Impot'', ''''),
    (''Swisscom '', None, ''Media'', ''''),
    (''Sunrise'', None, ''Media'', ''''),
    (''Salt'', None, ''Media'', ''''),
    (''Koloristika'', None, ''Chant'', ''''),
    (''Planchamp, Xavier'', None, ''Rent'', ''''),
    (''Baptiste Dujardin'', None, ''Food'', ''''),
    (''Caisse de pensions de'', Some ''Parking'', ''Car'', ''''),
    (''PPE LE CAMPUS'', None, ''Home Crosets'', ''''),
    (''Romande Energie SA'', None, ''Home'', ''''),
    (''Energiapro SA'', None, ''Home'', ''''),
    (''PPE SUNDANCE'', None, ''Home Crosets'', ''''),
    (''Caisse AVS de la Feder'', None, ''Alloc'', '''')]"

text \<open>
  The three guarded \<open>replace\<close> calls at the head of the function. Each test and each
  replacement sees the text left by the one before.
\<close>

definition strip_one :: "string \<Rightarrow> string \<Rightarrow> string" where
  "strip_one p s = (if contains p s then str_remove p s else s)"

definition strip_prefixes :: "string \<Rightarrow> string" where
  "strip_prefixes s =
     strip_one ''VIR TWINT '' (strip_one ''VIRT BANC '' (strip_one ''BCV-NET '' s))"

text \<open>
  What a rule returns for the text \<open>s\<close>: \<open>cleaned_name if cleaned_name else
  operation_str\<close>, so an absent or empty replacement keeps the text.
\<close>

definition bank_rule_result :: "bank_rule \<Rightarrow> string \<Rightarrow> string \<times> string \<times> string" where
  "bank_rule_result r s =
     (case r of (search_term, cleaned_name, category, sub_category) \<Rightarrow>
        ((case cleaned_name of None \<Rightarrow> s | Some n \<Rightarrow> if n = [] then s else n),
         category, sub_category))"

text \<open>The \<open>for\<close> loop over the table, with its fall-through \<open>return\<close>.\<close>

fun bank_scan :: "bank_rule list \<Rightarrow> string \<Rightarrow> string \<times> string \<times> string" where
  "bank_scan [] s = (s, '''', '''')"
| "bank_scan (r # rs) s =
     (if contains (fst r) s then bank_rule_result r s else bank_scan rs s)"

text \<open>
  The argument is \<open>None\<close> for a null or NaN cell and \<open>Some s\<close> for a cell whose
  \<open>str(...)\<close> is \<open>s\<close>.
\<close>

definition clean_bank_operation_and_categorize ::
    "string option \<Rightarrow> string \<times> string \<times> string" where
  "clean_bank_operation_and_categorize operation =
     (case operation of
        None \<Rightarrow> ('''', '''', '''')
      | Some operation_str \<Rightarrow> bank_scan bank_categories (strip_prefixes operation_str))"

subsection \<open>Merchant style: \<open>clean_merchant_and_categorize\<close>\<close>

type_synonym merchant_rule = "string \<times> string \<times> string"

definition merchant_categories :: "merchant_rule list" where
  "merchant_categories =
   [(''Migros'', ''Migros'', ''Food''),
    (''Aldi'', ''Aldi'', ''Food''),
    (''Denner'', ''Denner'', ''Food''),
    (''LAUSANNE10'', ''LAUSANNE10'', ''Food''),
    (''Manor'', ''Manor'', ''Food''),
    (''Coop'', ''Coop'', ''Food''),
    (''Jumbo'', ''Jumbo'', ''Home''),
    (''L'' @ [CHR 0x27] @ ''Instant Chocolat'', ''L'' @ [CHR 0x27] @ ''Instant Chocolat'', ''Food''),
    (''APPLE.COM'', ''APPLE.COM'', ''Media''),
    (''THE NEW YORK TIMES'', ''THE NEW YORK TIMES'', ''Media''),
    (''THE ATHLETIC'', ''THE ATHLETIC'', ''Media''),
    (''Tesla'', ''Tesla'', ''Car''),
    (''Prime Video'', ''Prime Video'', ''Media''),
    (''Sun Store'', ''Pharmacie-Sunstore'', ''Health''),
    (''Pharmacie-Sunstore'', ''Pharmacie-Sunstore'', ''Health''),
    (''Droguerie Jaquet'', ''Droguerie Jaquet'', ''Health''),
    (''Sakura Sushi'', ''Sakura Sushi'', ''Food''),
    (''Boutique Ravann'', ''Boutique Ravann'', ''Food''),
    (''SBB CFF'', ''SBB CFF'', ''Transport''),
    (''Brezelk'' @ [CHR 0xF6] @ ''nig'', ''Brezelk'' @ [CHR 0xF6] @ ''nig'', ''Food''),
    (''Zalando'', ''Zalando'', ''Clothing''),
    (''BestDrive'', ''BestDrive'', ''Car''),
    (''KymeM Cafe'', ''KymeM Cafe'', ''Restaurant''),
    (''Pizzeria Vecchia'', ''Pizzeria Vecchia Napoli'', ''Restaurant''),
    (''NETFLIX.COM'', ''NETFLIX.COM'', ''Media''),
    (''Netflix.com'', ''NETFLIX.COM'', ''Media''),
    (''Salt'', ''Salt Mobile SA'', ''Media''),
    (''salt.ch'', ''Salt Mobile SA'', ''Media''),
    (''Patreon'', ''Patreon'', ''Media''),
    (''Association Golf de La Puidoux'', ''Association Golf de La Puidoux'', ''Hobby''),
    (''Exotic Food Center'', ''Exotic Food Center'', ''Food''),
    (''Aux Merveilleux'', ''Aux Merveilleux'', ''Food''),
    (''Appunto Rest.'', ''Appunto Rest.'', ''Food''),
    (''QoQa Services SA'', ''QoQa'', ''?''),
    (''DAZN'', ''DAZN'', ''Media''),
    (''URUMQI'', ''URUMQI'', ''Food''),
    (''La Cavagne'', ''La Cavagne'', ''Food'')]"

fun merchant_scan :: "merchant_rule list \<Rightarrow> string \<Rightarrow> string \<times> string" where
  "merchant_scan [] s = (s, '''')"
| "merchant_scan (r # rs) s =
     (if contains (fst r) s then snd r else merchant_scan rs s)"

definition clean_merchant_and_categorize :: "string option \<Rightarrow> string \<times> string" where
  "clean_merchant_and_categorize merchant =
     (case merchant of
        None \<Rightarrow> ('''', '''')
      | Some merchant_str \<Rightarrow> merchant_scan merchant_categories merchant_str)"

section \<open>Dates\<close>

subsection \<open>\<open>datetime\<close> values\<close>

text \<open>
  A naive \<open>datetime.datetime\<close>, to the second (the script never produces or compares
  microseconds: its formats stop at \<open>%S\<close>).
\<close>

record datetime =
  year :: nat
  month :: nat
  day :: nat
  hour :: nat
  minute :: nat
  second :: nat

definition is_leap :: "nat \<Rightarrow> bool" where
  "is_leap y = (y mod 4 = 0 \<and> (y mod 100 \<noteq> 0 \<or> y mod 400 = 0))"

definition days_in_month :: "nat \<Rightarrow> nat \<Rightarrow> nat" where
  "days_in_month y m =
     (if m = 2 then (if is_leap y then 29 else 28)
      else if m = 4 \<or> m = 6 \<or> m = 9 \<or> m = 11 then 30 else 31)"

text \<open>The range checks of the \<open>datetime\<close> constructor (\<open>ValueError\<close> otherwise).\<close>

definition valid_datetime :: "datetime \<Rightarrow> bool" where
  "valid_datetime d =
     (1 \<le> year d \<and> year d \<le> 9999 \<and> 1 \<le> month d \<and> month d \<le> 12 \<and>
      1 \<le> day d \<and> day d \<le> days_in_month (year d) (month d) \<and>
      hour d < 24 \<and> minute d < 60 \<and> second d < 60)"

text \<open>The order of \<open>datetime\<close> values (\<open><\<close>, \<open>min\<close>, the sort key) is lexicographic.\<close>

definition dt_key :: "datetime \<Rightarrow> nat \<times> nat \<times> nat \<times> nat \<times> nat \<times> nat" where
  "dt_key d = (year d, month d, day d, hour d, minute d, second d)"

definition midnight :: "nat \<Rightarrow> nat \<Rightarrow> nat \<Rightarrow> datetime" where
  "midnight y m d = \<lparr>year = y, month = m, day = d, hour = 0, minute = 0, second = 0\<rparr>"

subsection \<open>Digits and \<open>strftime\<close>\<close>

definition is_digit :: "char \<Rightarrow> bool" where
  "is_digit c = (c \<in> set ''0123456789'')"

definition digit_val :: "char \<Rightarrow> nat" where
  "digit_val c = of_char c - 48"

definition digit_in :: "nat \<Rightarrow> nat \<Rightarrow> char \<Rightarrow> bool" where
  "digit_in lo hi c = (is_digit c \<and> lo \<le> digit_val c \<and> digit_val c \<le> hi)"

definition digit_char :: "nat \<Rightarrow> char" where
  "digit_char n = ''0123456789'' ! (n mod 10)"

definition pad2 :: "nat \<Rightarrow> string" where
  "pad2 n = [digit_char (n div 10), digit_char n]"

definition pad4 :: "nat \<Rightarrow> string" where
  "pad4 n = [digit_char (n div 1000), digit_char (n div 100), digit_char (n div 10), digit_char n]"

text \<open>
  \<open>strftime("%Y-%m-%d")\<close> and \<open>strftime("%d.%m.%Y")\<close>, the two renderings the writers
  use, with the year on four digits (what every platform prints from the year 1000 on).
\<close>

definition strftime_iso :: "datetime \<Rightarrow> string" where
  "strftime_iso d = pad4 (year d) @ ''-'' @ pad2 (month d) @ ''-'' @ pad2 (day d)"

definition strftime_dot :: "datetime \<Rightarrow> string" where
  "strftime_dot d = pad2 (day d) @ ''.'' @ pad2 (month d) @ ''.'' @ pad4 (year d)"

text \<open>\<open>str(d)\<close> of a \<open>datetime\<close>: the ISO form with a space before the time.\<close>

definition str_datetime :: "datetime \<Rightarrow> string" where
  "str_datetime d =
     strftime_iso d @ '' '' @ pad2 (hour d) @ '':'' @ pad2 (minute d) @ '':'' @ pad2 (second d)"

subsection \<open>\<open>strptime\<close>\<close>

text \<open>
  \<open>datetime.strptime\<close> compiles the format into a regular expression, one group per
  directive, takes the first match the backtracking search finds at the start of the
  text, refuses it when text is left over, and builds the \<open>datetime\<close> from the groups.
  The model keeps that structure: every directive lists its alternatives in the order of
  the regular expression of \<open>_strptime.py\<close>, as pairs of the value read and the text left.
\<close>

datatype directive = DirY | Dirm | Dird | DirH | DirM | DirS | Lit char | Spaces

text \<open>Two characters \<open>c1 c2\<close> accepted by \<open>ok\<close>, read as a two-digit number.\<close>

definition two_digits :: "(char \<Rightarrow> bool) \<Rightarrow> (char \<Rightarrow> bool) \<Rightarrow> string \<Rightarrow> (nat \<times> string) list" where
  "two_digits ok1 ok2 s =
     (case s of c1 # c2 # r \<Rightarrow>
        if ok1 c1 \<and> ok2 c2 then [(10 * digit_val c1 + digit_val c2, r)] else []
      | _ \<Rightarrow> [])"

definition one_digit :: "(char \<Rightarrow> bool) \<Rightarrow> string \<Rightarrow> (nat \<times> string) list" where
  "one_digit ok s = (case s of c # r \<Rightarrow> if ok c then [(digit_val c, r)] else [] | _ \<Rightarrow> [])"

text \<open>\<open>(3[0-1]|[1-2]\d|0[1-9]|[1-9]| [1-9])\<close>\<close>

definition cand_d :: "string \<Rightarrow> (nat \<times> string) list" where
  "cand_d s =
     two_digits (digit_in 3 3) (digit_in 0 1) s @
     two_digits (digit_in 1 2) is_digit s @
     two_digits (digit_in 0 0) (digit_in 1 9) s @
     one_digit (digit_in 1 9) s @
     (case s of c1 # c2 # r \<Rightarrow>
        if c1 = CHR '' '' \<and> digit_in 1 9 c2 then [(digit_val c2, r)] else []
      | _ \<Rightarrow> [])"

text \<open>\<open>(1[0-2]|0[1-9]|[1-9])\<close>\<close>

definition cand_m :: "string \<Rightarrow> (nat \<times> string) list" where
  "cand_m s =
     two_digits (digit_in 1 1) (digit_in 0 2) s @
     two_digits (digit_in 0 0) (digit_in 1 9) s @
     one_digit (digit_in 1 9) s"

text \<open>\<open>(\d\d\d\d)\<close>\<close>

definition cand_Y :: "string \<Rightarrow> (nat \<times> string) list" where
  "cand_Y s =
     (case s of c1 # c2 # c3 # c4 # r \<Rightarrow>
        if is_digit c1 \<and> is_digit c2 \<and> is_digit c3 \<and> is_digit c4
        then [(1000 * digit_val c1 + 100 * digit_val c2 + 10 * digit_val c3 + digit_val c4, r)]
        else []
      | _ \<Rightarrow> [])"

text \<open>\<open>(2[0-3]|[0-1]\d|\d)\<close>, \<open>([0-5]\d|\d)\<close> and \<open>(6[0-1]|[0-5]\d|\d)\<close>\<close>

definition cand_H :: "string \<Rightarrow> (nat \<times> string) list" where
  "cand_H s =
     two_digits (digit_in 2 2) (digit_in 0 3) s @
     two_digits (digit_in 0 1) is_digit s @
     one_digit is_digit s"

definition cand_M :: "string \<Rightarrow> (nat \<times> string) list" where
  "cand_M s = two_digits (digit_in 0 5) is_digit s @ one_digit is_digit s"

definition cand_S :: "string \<Rightarrow> (nat \<times> string) list" where
  "cand_S s =
     two_digits (digit_in 6 6) (digit_in 0 1) s @
     two_digits (digit_in 0 5) is_digit s @
     one_digit is_digit s"

text \<open>
  White space as \<open>str.strip\<close> and the class \<open>\s\<close> see it, among the code points below
  256.
\<close>

definition is_space :: "char \<Rightarrow> bool" where
  "is_space c = ((of_char c :: nat) \<in> {9, 10, 11, 12, 13, 28, 29, 30, 31, 32, 133, 160})"

text \<open>
  A blank of the format stands for \<open>\s+\<close>: the longest run of white space first, then
  the shorter ones down to a single character.
\<close>

fun cand_spaces :: "string \<Rightarrow> string list" where
  "cand_spaces [] = []"
| "cand_spaces (c # cs) = (if is_space c then cand_spaces cs @ [cs] else [])"

text \<open>One directive: the alternatives, each with the fields it sets.\<close>

definition step :: "directive \<Rightarrow> datetime \<Rightarrow> string \<Rightarrow> (datetime \<times> string) list" where
  "step d f s =
     (case d of
        DirY \<Rightarrow> map (\<lambda>(v, r). (f\<lparr>year := v\<rparr>, r)) (cand_Y s)
      | Dirm \<Rightarrow> map (\<lambda>(v, r). (f\<lparr>month := v\<rparr>, r)) (cand_m s)
      | Dird \<Rightarrow> map (\<lambda>(v, r). (f\<lparr>day := v\<rparr>, r)) (cand_d s)
      | DirH \<Rightarrow> map (\<lambda>(v, r). (f\<lparr>hour := v\<rparr>, r)) (cand_H s)
      | DirM \<Rightarrow> map (\<lambda>(v, r). (f\<lparr>minute := v\<rparr>, r)) (cand_M s)
      | DirS \<Rightarrow> map (\<lambda>(v, r). (f\<lparr>second := v\<rparr>, r)) (cand_S s)
      | Lit c \<Rightarrow> (case s of x # r \<Rightarrow> if x = c then [(f, r)] else [] | [] \<Rightarrow> [])
      | Spaces \<Rightarrow> map (\<lambda>r. (f, r)) (cand_spaces s))"

fun first_some :: "('a \<Rightarrow> 'b option) \<Rightarrow> 'a list \<Rightarrow> 'b option" where
  "first_some g [] = None"
| "first_some g (x # xs) = (case g x of Some y \<Rightarrow> Some y | None \<Rightarrow> first_some g xs)"

text \<open>
  The backtracking search: the first way, in the order of the alternatives, to match
  the whole format at the start of the text.
\<close>

fun match_first :: "directive list \<Rightarrow> datetime \<Rightarrow> string \<Rightarrow> (datetime \<times> string) option" where
  "match_first [] f s = Some (f, s)"
| "match_first (d # ds) f s = first_some (\<lambda>(f', r). match_first ds f' r) (step d f s)"

text \<open>
  The fields before any group is read are 1900-01-01 00:00:00. \<open>None\<close> is a
  \<open>ValueError\<close>: no match, text left over, or field values the constructor refuses.
\<close>

definition strptime :: "string \<Rightarrow> directive list \<Rightarrow> datetime option" where
  "strptime s fmt =
     (case match_first fmt (midnight 1900 1 1) s of
        None \<Rightarrow> None
      | Some (f, r) \<Rightarrow> if r = [] \<and> valid_datetime f then Some f else None)"

definition fmt_dmy_dash :: "directive list" where
  "fmt_dmy_dash = [Dird, Lit CHR ''-'', Dirm, Lit CHR ''-'', DirY]"

definition fmt_dmy_dot :: "directive list" where
  "fmt_dmy_dot = [Dird, Lit CHR ''.'', Dirm, Lit CHR ''.'', DirY]"

definition fmt_ymd :: "directive list" where
  "fmt_ymd = [DirY, Lit CHR ''-'', Dirm, Lit CHR ''-'', Dird]"

definition fmt_dmy_slash :: "directive list" where
  "fmt_dmy_slash = [Dird, Lit CHR ''/'', Dirm, Lit CHR ''/'', DirY]"

definition fmt_mdy_slash :: "directive list" where
  "fmt_mdy_slash = [Dirm, Lit CHR ''/'', Dird, Lit CHR ''/'', DirY]"

definition fmt_timestamp :: "directive list" where
  "fmt_timestamp =
     [DirY, Lit CHR ''-'', Dirm, Lit CHR ''-'', Dird, Spaces,
      DirH, Lit CHR '':'', DirM, Lit CHR '':'', DirS]"

subsection \<open>\<open>parse_date\<close>\<close>

definition strip :: "string \<Rightarrow> string" where
  "strip s = rev (dropWhile is_space (rev (dropWhile is_space s)))"

text \<open>The chain of \<open>try\<close> blocks on the stripped text: the first format that parses wins.\<close>

fun try_formats :: "directive list list \<Rightarrow> string \<Rightarrow> datetime option" where
  "try_formats [] s = None"
| "try_formats (fmt # fmts) s =
     (case strptime s fmt of Some d \<Rightarrow> Some d | None \<Rightarrow> try_formats fmts s)"

definition parse_date_text :: "string \<Rightarrow> datetime option" where
  "parse_date_text date_str =
     try_formats [fmt_dmy_dash, fmt_dmy_dot, fmt_ymd, fmt_dmy_slash, fmt_mdy_slash]
       (strip date_str)"

subsection \<open>Values of cells and of \<open>pandas\<close> fields\<close>

text \<open>
  What a worksheet cell or a field of a data frame row can hold: nothing (\<open>None\<close>, or
  NaN in a data frame), text, a number, or a \<open>datetime\<close>.
\<close>

datatype pyval = PNone | PStr string | PNum rat | PDate datetime

text \<open>
  Numbers are rationals: the finite floats, compared and hashed by value. The two
  conversions between numbers and text that the script leaves to Python are parameters
  of the model: \<open>num_repr\<close> is \<open>str(x)\<close> of a number, \<open>text_float\<close> is \<open>float(s)\<close> of a
  text, \<open>None\<close> when it raises \<open>ValueError\<close>. \<open>str\<close> of a missing value is written
  \<open>None\<close>; for a NaN field of a data frame Python prints \<open>nan\<close>, and the script treats
  the two alike: neither is a date in any layout and neither contains \<open>Credit\<close>.
\<close>

record pyconv =
  num_repr :: "rat \<Rightarrow> string"
  text_float :: "string \<Rightarrow> rat option"

definition py_str :: "pyconv \<Rightarrow> pyval \<Rightarrow> string" where
  "py_str cv v =
     (case v of PNone \<Rightarrow> ''None'' | PStr s \<Rightarrow> s | PNum x \<Rightarrow> num_repr cv x
      | PDate d \<Rightarrow> str_datetime d)"

text \<open>\<open>float(v)\<close>; \<open>None\<close> is a \<open>ValueError\<close> or a \<open>TypeError\<close>.\<close>

definition py_float :: "pyconv \<Rightarrow> pyval \<Rightarrow> rat option" where
  "py_float cv v =
     (case v of PNone \<Rightarrow> None | PStr s \<Rightarrow> text_float cv s | PNum x \<Rightarrow> Some x
      | PDate d \<Rightarrow> None)"

text \<open>The truth value of \<open>v\<close> in a condition.\<close>

definition truthy :: "pyval \<Rightarrow> bool" where
  "truthy v =
     (case v of PNone \<Rightarrow> False | PStr s \<Rightarrow> s \<noteq> [] | PNum x \<Rightarrow> x \<noteq> 0 | PDate d \<Rightarrow> True)"

definition parse_date :: "pyconv \<Rightarrow> pyval \<Rightarrow> datetime option" where
  "parse_date cv date_str =
     (case date_str of
        PDate d \<Rightarrow> Some d
      | _ \<Rightarrow> parse_date_text (py_str cv date_str))"

subsection \<open>The five layouts, printed\<close>

text \<open>
  \<open>render l d\<close> is \<open>d.strftime(f)\<close> for the format \<open>f\<close> of the layout \<open>l\<close>, one layout
  for each format string of \<open>parse_date\<close>, in the order it tries them.
\<close>

datatype layout = DMY_dash | DMY_dot | YMD_dash | DMY_slash | MDY_slash

definition render_dmy :: "char \<Rightarrow> datetime \<Rightarrow> string" where
  "render_dmy sep d = pad2 (day d) @ [sep] @ pad2 (month d) @ [sep] @ pad4 (year d)"

definition render :: "layout \<Rightarrow> datetime \<Rightarrow> string" where
  "render l d =
     (case l of
        DMY_dash \<Rightarrow> render_dmy CHR ''-'' d
      | DMY_dot \<Rightarrow> render_dmy CHR ''.'' d
      | YMD_dash \<Rightarrow> strftime_iso d
      | DMY_slash \<Rightarrow> render_dmy CHR ''/'' d
      | MDY_slash \<Rightarrow> pad2 (month d) @ ''/'' @ pad2 (day d) @ ''/'' @ pad4 (year d))"

section \<open>The workbook\<close>

text \<open>
  A worksheet as \<open>openpyxl\<close> keeps it: a cell for every coordinate, empty unless written,
  and \<open>max_row\<close>, the largest row that holds a cell (1 on a sheet without cells). Of a
  cell the model keeps the value and whether its font is bold; number formats are left
  out. Writing a cell or its font beyond \<open>max_row\<close> extends the sheet.
\<close>

datatype col = ColA | ColB | ColC | ColD | ColE | ColF

record cell =
  cval :: pyval
  cbold :: bool

record sheet =
  cells :: "col \<times> nat \<Rightarrow> cell"
  max_row :: nat

type_synonym workbook = "string \<rightharpoonup> sheet"

definition empty_sheet :: sheet where
  "empty_sheet = \<lparr>cells = (\<lambda>_. \<lparr>cval = PNone, cbold = False\<rparr>), max_row = 1\<rparr>"

definition cell_value :: "sheet \<Rightarrow> col \<Rightarrow> nat \<Rightarrow> pyval" where
  "cell_value sh c r = cval (cells sh (c, r))"

definition set_value :: "col \<Rightarrow> nat \<Rightarrow> pyval \<Rightarrow> sheet \<Rightarrow> sheet" where
  "set_value c r v sh =
     sh\<lparr>cells := (cells sh)((c, r) := (cells sh (c, r))\<lparr>cval := v\<rparr>),
        max_row := max (max_row sh) r\<rparr>"

definition set_bold :: "col \<Rightarrow> nat \<Rightarrow> sheet \<Rightarrow> sheet" where
  "set_bold c r sh =
     sh\<lparr>cells := (cells sh)((c, r) := (cells sh (c, r))\<lparr>cbold := True\<rparr>),
        max_row := max (max_row sh) r\<rparr>"

text \<open>\<open>workbook[name]\<close> if the sheet exists, else a new sheet with the headers in row 1.\<close>

definition new_sheet :: "string list \<Rightarrow> sheet" where
  "new_sheet headers =
     fold (\<lambda>(c, h). set_value c 1 (PStr h))
       (zip [ColA, ColB, ColC, ColD, ColE, ColF] headers) empty_sheet"

definition get_or_create :: "workbook \<Rightarrow> string \<Rightarrow> string list \<Rightarrow> sheet" where
  "get_or_create wb name headers =
     (case wb name of Some sh \<Rightarrow> sh | None \<Rightarrow> new_sheet headers)"

text \<open>The last row whose cell in column A is not \<open>None\<close> (1 when there is none).\<close>

definition last_data_row :: "sheet \<Rightarrow> nat" where
  "last_data_row sh =
     fold (\<lambda>row last_row. if cell_value sh ColA row \<noteq> PNone then row else last_row)
       [1..<max_row sh + 1] 1"

section \<open>Transactions and the writer of the two CSV pipelines\<close>

record txn =
  tx_date :: datetime
  tx_merchant :: string
  tx_amount :: rat
  tx_category :: string

type_synonym csv_key = "string \<times> string \<times> rat"

text \<open>\<open>trans_tuple\<close>: the key of a candidate.\<close>

definition trans_tuple :: "txn \<Rightarrow> csv_key" where
  "trans_tuple t = (strftime_iso (tx_date t), tx_merchant t, tx_amount t)"

text \<open>
  The key a ledger row contributes to \<open>existing_data\<close>, \<open>None\<close> when the row is passed
  over: a cell of the three that is false in a condition, or an amount \<open>float\<close> refuses.
\<close>

definition date_key_text :: "pyconv \<Rightarrow> pyval \<Rightarrow> string" where
  "date_key_text cv date_val =
     (case date_val of PDate d \<Rightarrow> strftime_iso d | _ \<Rightarrow> py_str cv date_val)"

definition ledger_key :: "pyconv \<Rightarrow> sheet \<Rightarrow> nat \<Rightarrow> csv_key option" where
  "ledger_key cv sh row =
     (let date_val = cell_value sh ColA row;
          merchant_val = cell_value sh ColB row;
          amount_val = cell_value sh ColC row
      in if truthy date_val \<and> truthy merchant_val \<and> truthy amount_val then
           (case py_float cv amount_val of
              None \<Rightarrow> None
            | Some amount_float \<Rightarrow>
                Some (date_key_text cv date_val, py_str cv merchant_val, amount_float))
         else None)"

definition existing_keys :: "pyconv \<Rightarrow> sheet \<Rightarrow> nat \<Rightarrow> csv_key set" where
  "existing_keys cv sh last_row = set (List.map_filter (ledger_key cv sh) [1..<last_row + 1])"

text \<open>\<open>min\<close> of a list of \<open>datetime\<close> values, \<open>None\<close> for the empty list.\<close>

definition oldest_of :: "datetime list \<Rightarrow> datetime option" where
  "oldest_of ds =
     (case ds of [] \<Rightarrow> None
      | d # rest \<Rightarrow> Some (fold (\<lambda>x m. if dt_key x < dt_key m then x else m) rest d))"

text \<open>\<open>list.sort(key=lambda x: x['date'], reverse=True)\<close>: stable, newest first.\<close>

definition sort_newest_first :: "('a \<Rightarrow> datetime) \<Rightarrow> 'a list \<Rightarrow> 'a list" where
  "sort_newest_first date_of xs = rev (sort_key (\<lambda>x. dt_key (date_of x)) (rev xs))"

record csv_state =
  worksheet :: sheet
  duplicate_worksheet :: sheet
  existing_data :: "csv_key set"
  next_row :: nat
  next_duplicate_row :: nat
  new_transactions_added :: nat
  duplicates_found :: nat

text \<open>The branch of the loop for a key already in \<open>existing_data\<close>.\<close>

definition write_duplicate :: "string \<Rightarrow> txn \<Rightarrow> nat \<Rightarrow> sheet \<Rightarrow> sheet" where
  "write_duplicate reason t r sh =
     set_value ColE r (PStr reason)
       (set_value ColD r (PStr (tx_category t))
         (set_value ColC r (PNum (tx_amount t))
           (set_value ColB r (PStr (tx_merchant t))
             (set_value ColA r (PStr (strftime_dot (tx_date t))) sh))))"

text \<open>The other branch: the row of the ledger, bold when the date is the oldest one.\<close>

definition write_ledger_row :: "datetime option \<Rightarrow> txn \<Rightarrow> nat \<Rightarrow> sheet \<Rightarrow> sheet" where
  "write_ledger_row oldest_date t r sh =
     (let sh1 = set_value ColC r (PNum (tx_amount t))
                  (set_value ColB r (PStr (tx_merchant t))
                    (set_value ColA r (PStr (strftime_dot (tx_date t))) sh));
          sh2 = (if tx_category t \<noteq> [] then set_value ColE r (PStr (tx_category t)) sh1
                 else sh1)
      in if oldest_date = Some (tx_date t) then
           (let sh3 = set_bold ColC r (set_bold ColB r (set_bold ColA r sh2))
            in if tx_category t \<noteq> [] then set_bold ColE r sh3 else sh3)
         else sh2)"

definition write_csv_step :: "string \<Rightarrow> datetime option \<Rightarrow> txn \<Rightarrow> csv_state \<Rightarrow> csv_state" where
  "write_csv_step reason oldest_date t s =
     (if trans_tuple t \<in> existing_data s then
        s\<lparr>duplicate_worksheet :=
             write_duplicate reason t (next_duplicate_row s) (duplicate_worksheet s),
           duplicates_found := duplicates_found s + 1,
           next_duplicate_row := next_duplicate_row s + 1\<rparr>
      else
        s\<lparr>worksheet := write_ledger_row oldest_date t (next_row s) (worksheet s),
           existing_data := insert (trans_tuple t) (existing_data s),
           new_transactions_added := new_transactions_added s + 1,
           next_row := next_row s + 1\<rparr>)"

fun write_csv_loop :: "string \<Rightarrow> datetime option \<Rightarrow> txn list \<Rightarrow> csv_state \<Rightarrow> csv_state" where
  "write_csv_loop reason oldest_date [] s = s"
| "write_csv_loop reason oldest_date (t # ts) s =
     write_csv_loop reason oldest_date ts (write_csv_step reason oldest_date t s)"

text \<open>
  The state before the loop: the two sheets, the keys of the ledger rows up to the last
  data row, and the two rows to write next.
\<close>

definition csv_initial :: "pyconv \<Rightarrow> sheet \<Rightarrow> sheet \<Rightarrow> csv_state" where
  "csv_initial cv sh dsh =
     \<lparr>worksheet = sh, duplicate_worksheet = dsh,
      existing_data = existing_keys cv sh (last_data_row sh),
      next_row = last_data_row sh + 1,
      next_duplicate_row = last_data_row dsh + 1,
      new_transactions_added = 0, duplicates_found = 0\<rparr>"

text \<open>
  The pass before the loop: the oldest date among the candidates whose key is not in
  the set the ledger gave.
\<close>

definition oldest_new_date :: "csv_key set \<Rightarrow> txn list \<Rightarrow> datetime option" where
  "oldest_new_date existing ts =
     oldest_of (map tx_date (filter (\<lambda>t. trans_tuple t \<notin> existing) ts))"

text \<open>
  The write phase shared, word for word, by \<open>process_account_statements\<close> and
  \<open>process_transactions\<close>; they differ in the name of the ledger sheet, the header row
  of new sheets and the reason written beside a duplicate.
\<close>

definition write_csv ::
    "pyconv \<Rightarrow> string \<Rightarrow> string list \<Rightarrow> string \<Rightarrow> txn list \<Rightarrow> workbook \<Rightarrow> workbook" where
  "write_csv cv sheet_name headers reason ts wb =
     (let sh = get_or_create wb sheet_name headers;
          dsh = get_or_create wb ''Duplicates'' headers;
          s0 = csv_initial cv sh dsh;
          s1 = write_csv_loop reason (oldest_new_date (existing_data s0) ts) ts s0
      in wb(sheet_name \<mapsto> worksheet s1, ''Duplicates'' \<mapsto> duplicate_worksheet s1))"

subsection \<open>\<open>process_account_statements\<close>\<close>

text \<open>
  A row of an account statement file, as \<open>pandas\<close> reads it: the columns \<open>Type\<close>,
  \<open>Completed Date\<close> and \<open>Description\<close> are text and \<open>Amount\<close> is numeric; \<open>None\<close> is a
  missing field.
\<close>

record account_row =
  a_type :: "string option"
  a_completed :: "string option"
  a_description :: "string option"
  a_amount :: "rat option"

text \<open>The body of the loop over the card payments; \<open>None\<close> is a row passed over.\<close>

definition account_txn :: "account_row \<Rightarrow> txn option" where
  "account_txn row =
     (case a_completed row of
        None \<Rightarrow> None
      | Some completed_date_str \<Rightarrow>
          (case strptime completed_date_str fmt_timestamp of
             None \<Rightarrow> None
           | Some completed_date \<Rightarrow>
               (case a_description row of
                  None \<Rightarrow> None
                | Some merchant \<Rightarrow>
                    (case a_amount row of
                       None \<Rightarrow> None
                     | Some amount \<Rightarrow>
                         (case clean_merchant_and_categorize (Some merchant) of
                            (cleaned_merchant, category) \<Rightarrow>
                              Some \<lparr>tx_date = completed_date, tx_merchant = cleaned_merchant,
                                    tx_amount = \<bar>amount\<bar>, tx_category = category\<rparr>)))))"

definition account_transactions :: "account_row list list \<Rightarrow> txn list" where
  "account_transactions files =
     concat (map (\<lambda>df. List.map_filter account_txn
                          (filter (\<lambda>row. a_type row = Some ''Card Payment'') df)) files)"

definition account_headers :: "string list" where
  "account_headers = [''Date'', ''Merchant'', ''Amount'', ''Category'', ''Reason'']"

text \<open>
  The arguments are the account statement files found and the workbook, \<open>None\<close> when
  the file is missing. The result is the workbook saved, \<open>None\<close> when the function
  returns without saving.
\<close>

definition process_account_statements ::
    "pyconv \<Rightarrow> account_row list list \<Rightarrow> workbook option \<Rightarrow> workbook option" where
  "process_account_statements cv account_files excel_file =
     (if account_files = [] then None
      else case excel_file of
        None \<Rightarrow> None
      | Some wb \<Rightarrow>
          (let all_transactions = account_transactions account_files
           in if all_transactions = [] then None
              else Some (write_csv cv ''Revolut'' account_headers
                           ''Duplicate from account statement''
                           (sort_newest_first tx_date all_transactions) wb)))"

subsection \<open>\<open>process_transactions\<close>\<close>

record cc_row =
  c_booking :: pyval
  c_merchant :: "string option"
  c_type :: pyval
  c_amount :: pyval

text \<open>
  A missing amount is passed over here; in the script \<open>float\<close> of a NaN field is NaN,
  a value outside the numbers of the model.
\<close>

definition cc_txn :: "pyconv \<Rightarrow> cc_row \<Rightarrow> txn option" where
  "cc_txn cv row =
     (case parse_date cv (c_booking row) of
        None \<Rightarrow> None
      | Some booking_date \<Rightarrow>
          (case py_float cv (c_amount row) of
             None \<Rightarrow> None
           | Some amount \<Rightarrow>
               (case clean_merchant_and_categorize (c_merchant row) of
                  (cleaned_merchant, category) \<Rightarrow>
                    Some \<lparr>tx_date = booking_date, tx_merchant = cleaned_merchant,
                          tx_amount = (if contains ''Credit'' (py_str cv (c_type row))
                                       then - amount else amount),
                          tx_category = category\<rparr>)))"

definition cc_headers :: "string list" where
  "cc_headers = [''Date'', ''Merchant'', ''Amount'', ''Empty'', ''Category'']"

definition process_transactions ::
    "pyconv \<Rightarrow> cc_row list option \<Rightarrow> workbook option \<Rightarrow> workbook option" where
  "process_transactions cv csv_file excel_file =
     (case excel_file of
        None \<Rightarrow> None
      | Some wb \<Rightarrow>
          (case csv_file of
             None \<Rightarrow> None
           | Some df \<Rightarrow>
               Some (write_csv cv ''Carte Cred'' cc_headers ''Duplicate entry''
                       (sort_newest_first tx_date (List.map_filter (cc_txn cv) df)) wb)))"

section \<open>The bank pipeline: \<open>process_bank_statements\<close>\<close>

record bank_txn =
  bt_date :: datetime
  bt_operation :: string
  bt_debit :: rat
  bt_credit :: rat
  bt_category :: string
  bt_sub_category :: string

text \<open>A row of the statement file: the first four columns, \<open>PNone\<close> for a missing field.\<close>

record bank_row =
  b_date :: pyval
  b_operation :: pyval
  b_debit :: pyval
  b_credit :: pyval

subsection \<open>The latest date of the sheet \<open>2025\<close>\<close>

text \<open>
  The date a cell of column A stands for: none for a cell that is false in a condition,
  the value of a date cell, and what \<open>parse_date\<close> reads in \<open>str\<close> of any other cell.
\<close>

definition cell_date :: "pyconv \<Rightarrow> pyval \<Rightarrow> datetime option" where
  "cell_date cv date_val =
     (if truthy date_val then
        (case date_val of PDate d \<Rightarrow> Some d
         | _ \<Rightarrow> parse_date cv (PStr (py_str cv date_val)))
      else None)"

text \<open>One round of the scan of column A, from row 2 on.\<close>

definition latest_step :: "pyconv \<Rightarrow> sheet \<Rightarrow> nat \<Rightarrow> datetime option \<Rightarrow> datetime option" where
  "latest_step cv sh row latest_date =
     (case cell_date cv (cell_value sh ColA row) of
        None \<Rightarrow> latest_date
      | Some current_date \<Rightarrow>
          (case latest_date of
             None \<Rightarrow> Some current_date
           | Some l \<Rightarrow> if dt_key l < dt_key current_date then Some current_date
                       else latest_date))"

definition latest_date_of :: "pyconv \<Rightarrow> workbook \<Rightarrow> datetime option" where
  "latest_date_of cv wb =
     (case wb ''2025'' of
        None \<Rightarrow> None
      | Some sheet_2025 \<Rightarrow> fold (latest_step cv sheet_2025) [2..<max_row sheet_2025 + 1] None)"

subsection \<open>Reading the rows\<close>

text \<open>\<open>row.iloc[k] if pd.notna(row.iloc[k]) else 0\<close>\<close>

definition or_zero :: "pyval \<Rightarrow> pyval" where
  "or_zero v = (if v \<noteq> PNone then v else PNum 0)"

text \<open>\<open>float(v) if v != 0 else 0\<close>; \<open>None\<close> when \<open>float\<close> raises.\<close>

definition amount_of :: "pyconv \<Rightarrow> pyval \<Rightarrow> rat option" where
  "amount_of cv v = (if v \<noteq> PNum 0 then py_float cv v else Some 0)"

text \<open>
  The body of the loop over the rows, given the latest date of the sheet \<open>2025\<close>;
  \<open>None\<close> is a row passed over, by a \<open>continue\<close>, by the date test or by an exception.
\<close>

definition bank_txn_of :: "pyconv \<Rightarrow> datetime option \<Rightarrow> bank_row \<Rightarrow> bank_txn option" where
  "bank_txn_of cv latest_date row =
     (if b_date row = PNone then None
      else case parse_date cv (b_date row) of
        None \<Rightarrow> None
      | Some execution_date \<Rightarrow>
          if b_operation row = PNone then None
          else
            (let debit = or_zero (b_debit row); credit = or_zero (b_credit row)
             in if debit = PNum 0 \<and> credit = PNum 0 then None
                else case clean_bank_operation_and_categorize
                            (Some (py_str cv (b_operation row))) of
                  (cleaned_operation, category, sub_category) \<Rightarrow>
                    if (case latest_date of None \<Rightarrow> True
                        | Some l \<Rightarrow> dt_key l < dt_key execution_date) then
                      (case (amount_of cv debit, amount_of cv credit) of
                         (Some d, Some c) \<Rightarrow>
                           Some \<lparr>bt_date = execution_date, bt_operation = cleaned_operation,
                                 bt_debit = d, bt_credit = c, bt_category = category,
                                 bt_sub_category = sub_category\<rparr>
                       | _ \<Rightarrow> None)
                    else None))"

subsection \<open>Writing the sheet \<open>BCV\<close>\<close>

type_synonym bank_key = "string \<times> string \<times> rat \<times> rat"

definition bank_tuple :: "bank_txn \<Rightarrow> bank_key" where
  "bank_tuple t = (strftime_iso (bt_date t), bt_operation t, bt_debit t, bt_credit t)"

definition bcv_key :: "pyconv \<Rightarrow> sheet \<Rightarrow> nat \<Rightarrow> bank_key option" where
  "bcv_key cv sh row =
     (let date_val = cell_value sh ColA row;
          operation_val = cell_value sh ColB row;
          debit_val = cell_value sh ColC row;
          credit_val = cell_value sh ColD row
      in if truthy date_val \<and> truthy operation_val \<and> (truthy debit_val \<or> truthy credit_val) then
           (case (if truthy debit_val then py_float cv debit_val else Some 0,
                  if truthy credit_val then py_float cv credit_val else Some 0) of
              (Some debit_float, Some credit_float) \<Rightarrow>
                Some (date_key_text cv date_val, py_str cv operation_val,
                      debit_float, credit_float)
            | _ \<Rightarrow> None)
         else None)"

definition bcv_existing :: "pyconv \<Rightarrow> sheet \<Rightarrow> bank_key set" where
  "bcv_existing cv sh = set (List.map_filter (bcv_key cv sh) [1..<max_row sh + 1])"

record bank_state =
  sheet_bcv :: sheet
  bank_existing :: "bank_key set"
  bank_next_row :: nat
  bank_added :: nat
  duplicates_skipped :: nat

definition write_bcv_row :: "datetime option \<Rightarrow> bank_txn \<Rightarrow> nat \<Rightarrow> sheet \<Rightarrow> sheet" where
  "write_bcv_row oldest_bank_date t r sh =
     (let sh1 = set_value ColD r (if bt_credit t \<noteq> 0 then PNum (bt_credit t) else PStr [])
                  (set_value ColC r (if bt_debit t \<noteq> 0 then PNum (bt_debit t) else PStr [])
                    (set_value ColB r (PStr (bt_operation t))
                      (set_value ColA r (PStr (strftime_dot (bt_date t))) sh)));
          sh2 = (if bt_category t \<noteq> [] then set_value ColE r (PStr (bt_category t)) sh1
                 else sh1);
          sh3 = (if bt_sub_category t \<noteq> [] then set_value ColF r (PStr (bt_sub_category t)) sh2
                 else sh2)
      in if oldest_bank_date = Some (bt_date t) then
           set_bold ColF r (set_bold ColE r (set_bold ColD r
             (set_bold ColC r (set_bold ColB r (set_bold ColA r sh3)))))
         else sh3)"

definition write_bank_step :: "datetime option \<Rightarrow> bank_txn \<Rightarrow> bank_state \<Rightarrow> bank_state" where
  "write_bank_step oldest_bank_date t s =
     (if bank_tuple t \<in> bank_existing s then
        s\<lparr>duplicates_skipped := duplicates_skipped s + 1\<rparr>
      else
        s\<lparr>sheet_bcv := write_bcv_row oldest_bank_date t (bank_next_row s) (sheet_bcv s),
           bank_existing := insert (bank_tuple t) (bank_existing s),
           bank_added := bank_added s + 1,
           bank_next_row := bank_next_row s + 1\<rparr>)"

fun write_bank_loop :: "datetime option \<Rightarrow> bank_txn list \<Rightarrow> bank_state \<Rightarrow> bank_state" where
  "write_bank_loop oldest_bank_date [] s = s"
| "write_bank_loop oldest_bank_date (t # ts) s =
     write_bank_loop oldest_bank_date ts (write_bank_step oldest_bank_date t s)"

definition bank_initial :: "pyconv \<Rightarrow> sheet \<Rightarrow> bank_state" where
  "bank_initial cv sh =
     \<lparr>sheet_bcv = sh, bank_existing = bcv_existing cv sh,
      bank_next_row = last_data_row sh + 1, bank_added = 0, duplicates_skipped = 0\<rparr>"

definition oldest_new_bank_date :: "bank_key set \<Rightarrow> bank_txn list \<Rightarrow> datetime option" where
  "oldest_new_bank_date existing ts =
     oldest_of (map bt_date (filter (\<lambda>t. bank_tuple t \<notin> existing) ts))"

definition bank_headers :: "string list" where
  "bank_headers = [''Date'', ''Operation'', ''Debit'', ''Credit'', ''Category'', ''Sub Category'']"

text \<open>
  The arguments are the rows of the first statement file found (\<open>None\<close>: no such file)
  and the workbook (\<open>None\<close>: missing). The result is the workbook saved, \<open>None\<close> when
  the function returns without saving.
\<close>

definition process_bank_statements ::
    "pyconv \<Rightarrow> bank_row list option \<Rightarrow> workbook option \<Rightarrow> workbook option" where
  "process_bank_statements cv input_file output_file =
     (case input_file of
        None \<Rightarrow> None
      | Some df \<Rightarrow>
          (case output_file of
             None \<Rightarrow> None
           | Some wb \<Rightarrow>
               (let bank_transactions =
                      List.map_filter (bank_txn_of cv (latest_date_of cv wb)) df
                in if bank_transactions = [] then None
                   else
                     (let ts = sort_newest_first bt_date bank_transactions;
                          s0 = bank_initial cv (get_or_create wb ''BCV'' bank_headers);
                          s1 = write_bank_loop
                                 (oldest_new_bank_date (bank_existing s0) ts) ts s0
                      in Some (wb(''BCV'' \<mapsto> sheet_bcv s1))))))"

text \<open>What the loops write in a row, read back: the cells that identify the candidate.\<close>

definition ledger_row_holds :: "sheet \<Rightarrow> nat \<Rightarrow> txn \<Rightarrow> bool" where
  "ledger_row_holds sh r t =
     (cell_value sh ColA r = PStr (strftime_dot (tx_date t)) \<and>
      cell_value sh ColB r = PStr (tx_merchant t) \<and>
      cell_value sh ColC r = PNum (tx_amount t))"

definition duplicate_row_holds :: "string \<Rightarrow> sheet \<Rightarrow> nat \<Rightarrow> txn \<Rightarrow> bool" where
  "duplicate_row_holds reason sh r t =
     (cell_value sh ColA r = PStr (strftime_dot (tx_date t)) \<and>
      cell_value sh ColB r = PStr (tx_merchant t) \<and>
      cell_value sh ColC r = PNum (tx_amount t) \<and>
      cell_value sh ColD r = PStr (tx_category t) \<and>
      cell_value sh ColE r = PStr reason)"

definition bcv_row_holds :: "sheet \<Rightarrow> nat \<Rightarrow> bank_txn \<Rightarrow> bool" where
  "bcv_row_holds sh r t =
     (cell_value sh ColA r = PStr (strftime_dot (bt_date t)) \<and>
      cell_value sh ColB r = PStr (bt_operation t))"

section \<open>Inputs used in the worked examples\<close>

text \<open>Conversions that read no text as a number; the examples convert none.\<close>

definition plain_conv :: pyconv where
  "plain_conv = \<lparr>num_repr = (\<lambda>_. []), text_float = (\<lambda>_. None)\<rparr>"

text \<open>The card payment of the end-to-end scenario of the specification.\<close>

definition migros_row :: account_row where
  "migros_row =
     \<lparr>a_type = Some ''Card Payment'', a_completed = Some ''2025-11-13 14:07:59'',
      a_description = Some ''Migros Lausanne'', a_amount = Some (- (85 / 2))\<rparr>"

text \<open>A second payment at the same shop, of the same amount, earlier on the same day.\<close>

definition migros_row_morning :: account_row where
  "migros_row_morning =
     \<lparr>a_type = Some ''Card Payment'', a_completed = Some ''2025-11-13 09:00:00'',
      a_description = Some ''Migros Lausanne'', a_amount = Some (- (85 / 2))\<rparr>"

section \<open>Vocabulary for the loops over a batch\<close>

text \<open>
  Both writer loops test the key of each candidate against a set that starts as the keys
  of the ledger and grows by the key of every candidate appended. \<open>appended key X ts\<close>
  lists the candidates of the batch \<open>ts\<close> that take the appending branch when the set
  starts as \<open>X\<close>, and \<open>duplicates key X ts\<close> those that take the duplicate branch, both
  in processing order.
\<close>

fun appended :: "('a \<Rightarrow> 'k) \<Rightarrow> 'k set \<Rightarrow> 'a list \<Rightarrow> 'a list" where
  "appended key X [] = []"
| "appended key X (t # ts) =
     (if key t \<in> X then appended key X ts else t # appended key (insert (key t) X) ts)"

fun duplicates :: "('a \<Rightarrow> 'k) \<Rightarrow> 'k set \<Rightarrow> 'a list \<Rightarrow> 'a list" where
  "duplicates key X [] = []"
| "duplicates key X (t # ts) =
     (if key t \<in> X then t # duplicates key X ts else duplicates key (insert (key t) X) ts)"

text \<open>
  The positions of the batch whose key is neither in \<open>X\<close> nor the key of an earlier
  position: the first occurrences of the keys that are new. \<open>later_or_known\<close> are the
  other positions.
\<close>

definition first_new :: "('a \<Rightarrow> 'k) \<Rightarrow> 'k set \<Rightarrow> 'a list \<Rightarrow> nat list" where
  "first_new key X ts =
     filter (\<lambda>i. key (ts ! i) \<notin> X \<and> key (ts ! i) \<notin> key ` set (take i ts)) [0..<length ts]"

definition later_or_known :: "('a \<Rightarrow> 'k) \<Rightarrow> 'k set \<Rightarrow> 'a list \<Rightarrow> nat list" where
  "later_or_known key X ts =
     filter (\<lambda>i. key (ts ! i) \<in> X \<or> key (ts ! i) \<in> key ` set (take i ts)) [0..<length ts]"

text \<open>The transaction the reader makes of \<open>migros_row\<close>, and a bank transaction.\<close>

definition migros_txn :: txn where
  "migros_txn =
     \<lparr>tx_date = \<lparr>year = 2025, month = 11, day = 13, hour = 14, minute = 7, second = 59\<rparr>,
      tx_merchant = ''Migros'', tx_amount = 85 / 2, tx_category = ''Food''\<rparr>"

definition duol_txn :: bank_txn where
  "duol_txn =
     \<lparr>bt_date = midnight 2025 11 13, bt_operation = ''Duol Geneve'', bt_debit = 30,
      bt_credit = 0, bt_category = ''Chant Cred'', bt_sub_category = ''Duol''\<rparr>"

text \<open>The states of the two loops over an empty ledger whose header row is row 1.\<close>

definition fresh_csv_state :: csv_state where
  "fresh_csv_state =
     \<lparr>worksheet = empty_sheet, duplicate_worksheet = empty_sheet, existing_data = {},
      next_row = 2, next_duplicate_row = 2, new_transactions_added = 0, duplicates_found = 0\<rparr>"

definition fresh_bank_state :: bank_state where
  "fresh_bank_state =
     \<lparr>sheet_bcv = empty_sheet, bank_existing = {}, bank_next_row = 2, bank_added = 0,
      duplicates_skipped = 0\<rparr>"

text \<open>
  The bank statement row of the end-to-end scenario of the specification, and a sheet
  \<open>BCV\<close> that already holds it, with its date as a date cell.
\<close>

definition duol_row :: bank_row where
  "duol_row =
     \<lparr>b_date = PStr ''13.11.2025'', b_operation = PStr ''BCV-NET Duol Geneve'',
      b_debit = PNum 30, b_credit = PNone\<rparr>"

definition bcv_with_duol :: sheet where
  "bcv_with_duol =
     set_value ColC 2 (PNum 30)
       (set_value ColB 2 (PStr ''Duol Geneve'')
         (set_value ColA 2 (PDate (midnight 2025 11 13)) (new_sheet bank_headers)))"

text \<open>
  Two more statement rows: one with an amount on both sides, one with a negative debit;
  and a sheet \<open>2025\<close> whose only date stands in row 1.
\<close>

definition both_sides_row :: bank_row where
  "both_sides_row =
     \<lparr>b_date = PStr ''13.11.2025'', b_operation = PStr ''Dupont'',
      b_debit = PNum 30, b_credit = PNum 20\<rparr>"

definition negative_row :: bank_row where
  "negative_row =
     \<lparr>b_date = PStr ''13.11.2025'', b_operation = PStr ''Dupont'',
      b_debit = PNum (- 5), b_credit = PNone\<rparr>"

definition empty_amounts_row :: bank_row where
  "empty_amounts_row =
     \<lparr>b_date = PStr ''13.11.2025'', b_operation = PStr ''Dupont'',
      b_debit = PNone, b_credit = PNum 0\<rparr>"

definition sheet_2025_date_in_row_1 :: sheet where
  "sheet_2025_date_in_row_1 = set_value ColA 1 (PStr ''31.12.2025'') empty_sheet"

text \<open>
  A sheet \<open>2025\<close> with a header and two dates, the later one a date cell, and a statement
  row dated on the later of the two.
\<close>

definition sheet_2025_two_dates :: sheet where
  "sheet_2025_two_dates =
     set_value ColA 3 (PDate (midnight 2025 11 10))
       (set_value ColA 2 (PStr ''01.11.2025'') (set_value ColA 1 (PStr ''Date'') empty_sheet))"

definition old_row :: bank_row where
  "old_row =
     \<lparr>b_date = PStr ''10.11.2025'', b_operation = PStr ''Dupont'',
      b_debit = PNum 12, b_credit = PNone\<rparr>"

text \<open>
  A ledger whose row 2 records a payment of amount zero, with its date as a date cell,
  and the candidate for the same payment.
\<close>

definition ledger_with_zero :: sheet where
  "ledger_with_zero =
     set_value ColC 2 (PNum 0)
       (set_value ColB 2 (PStr ''Migros'')
         (set_value ColA 2 (PDate (midnight 2025 11 13)) (new_sheet account_headers)))"

definition zero_txn :: txn where
  "zero_txn =
     \<lparr>tx_date = midnight 2025 11 13, tx_merchant = ''Migros'', tx_amount = 0,
      tx_category = ''Food''\<rparr>"

text \<open>The transaction the reader makes of \<open>migros_row_morning\<close>.\<close>

definition migros_morning_txn :: txn where
  "migros_morning_txn =
     \<lparr>tx_date = \<lparr>year = 2025, month = 11, day = 13, hour = 9, minute = 0, second = 0\<rparr>,
      tx_merchant = ''Migros'', tx_amount = 85 / 2, tx_category = ''Food''\<rparr>"

section \<open>Lemmas on digits and on the directives of \<open>strptime\<close>\<close>

lemma lt10_disj:
  "(k::nat) < 10 \<Longrightarrow> k = 0 \<or> k = 1 \<or> k = 2 \<or> k = 3 \<or> k = 4 \<or> k = 5 \<or> k = 6 \<or> k = 7 \<or> k = 8 \<or> k = 9"
  by arith

lemma mod10_cases:
  fixes n :: nat
  obtains "n mod 10 = 0" | "n mod 10 = 1" | "n mod 10 = 2" | "n mod 10 = 3" | "n mod 10 = 4"
    | "n mod 10 = 5" | "n mod 10 = 6" | "n mod 10 = 7" | "n mod 10 = 8" | "n mod 10 = 9"
  using lt10_disj [of "n mod 10"] by fastforce

lemma is_digit_digit_char [simp]: "is_digit (digit_char n)"
  by (cases n rule: mod10_cases) (simp_all add: is_digit_def digit_char_def)

lemma digit_val_digit_char [simp]: "digit_val (digit_char n) = n mod 10"
  by (cases n rule: mod10_cases) (simp_all add: digit_val_def digit_char_def)

lemma digit_char_not_sep [simp]:
  "digit_char n \<noteq> CHR ''-''" "digit_char n \<noteq> CHR ''.''" "digit_char n \<noteq> CHR ''/''"
  "digit_char n \<noteq> CHR '' ''" "\<not> is_space (digit_char n)"
  by (cases n rule: mod10_cases; simp add: digit_char_def is_space_def)+

lemma digit_in_digit_char [simp]:
  "digit_in lo hi (digit_char n) \<longleftrightarrow> lo \<le> n mod 10 \<and> n mod 10 \<le> hi"
  by (simp add: digit_in_def)

lemma not_digit_sep [simp]:
  "\<not> is_digit CHR ''-''" "\<not> is_digit CHR ''.''" "\<not> is_digit CHR ''/''"
  by (simp_all add: is_digit_def)

lemma cand_d_pad2:
  assumes "1 \<le> n" "n \<le> 31"
  shows "\<exists>more. cand_d (pad2 n @ r) = (n, r) # more"
proof -
  have d: "n div 10 = 0 \<or> n div 10 = 1 \<or> n div 10 = 2 \<or> n div 10 = 3" using assms by arith
  have v: "10 * (n div 10) + n mod 10 = n" by simp
  have a: "n div 10 = 3 \<Longrightarrow> n mod 10 \<le> 1" using assms by arith
  have b: "n div 10 = 0 \<Longrightarrow> 1 \<le> n mod 10" using assms by arith
  have e: "n div 10 = 0 \<Longrightarrow> n mod 10 = n" using assms by arith
  from d show ?thesis
  proof (elim disjE)
    assume "n div 10 = 0" with b e show ?thesis
      by (simp add: cand_d_def pad2_def two_digits_def one_digit_def)
  next
    assume h: "n div 10 = 1" with v have "10 + n mod 10 = n" by simp
    with h show ?thesis
      by (simp add: cand_d_def pad2_def two_digits_def one_digit_def)
  next
    assume h: "n div 10 = 2" with v have "20 + n mod 10 = n" by simp
    with h show ?thesis
      by (simp add: cand_d_def pad2_def two_digits_def one_digit_def)
  next
    assume h: "n div 10 = 3" with v have "30 + n mod 10 = n" by simp
    with h a show ?thesis
      by (simp add: cand_d_def pad2_def two_digits_def one_digit_def)
  qed
qed

lemma cand_m_pad2:
  assumes "1 \<le> n" "n \<le> 12"
  shows "\<exists>more. cand_m (pad2 n @ r) = (n, r) # more"
proof -
  have d: "n div 10 = 0 \<or> n div 10 = 1" using assms by arith
  have v: "10 * (n div 10) + n mod 10 = n" by simp
  have a: "n div 10 = 1 \<Longrightarrow> n mod 10 \<le> 2" using assms by arith
  have b: "n div 10 = 0 \<Longrightarrow> 1 \<le> n mod 10" using assms by arith
  have e: "n div 10 = 0 \<Longrightarrow> n mod 10 = n" using assms by arith
  from d show ?thesis
  proof (elim disjE)
    assume "n div 10 = 0" with b e show ?thesis
      by (simp add: cand_m_def pad2_def two_digits_def one_digit_def)
  next
    assume h: "n div 10 = 1" with v have "10 + n mod 10 = n" by simp
    with h a show ?thesis
      by (simp add: cand_m_def pad2_def two_digits_def one_digit_def)
  qed
qed

lemma cand_Y_pad4:
  assumes "n \<le> 9999"
  shows "cand_Y (pad4 n @ r) = [(n, r)]"
proof -
  have a: "n mod 100 = 10 * (n div 10 mod 10) + n mod 10"
    using mod_mult2_eq [of n 10 10] by simp
  have b: "n mod 1000 = 100 * (n div 100 mod 10) + n mod 100"
    using mod_mult2_eq [of n 100 10] by simp
  have c: "n mod 10000 = 1000 * (n div 1000 mod 10) + n mod 1000"
    using mod_mult2_eq [of n 1000 10] by simp
  have "n mod 10000 = n" using assms by simp
  with a b c
  have "1000 * (n div 1000 mod 10) + 100 * (n div 100 mod 10) + 10 * (n div 10 mod 10) + n mod 10 = n"
    by linarith
  moreover have "n div 1000 mod 10 = n div 1000" using assms by simp
  ultimately show ?thesis by (simp add: cand_Y_def pad4_def)
qed

lemma first_some_None: "(\<And>x. x \<in> set xs \<Longrightarrow> g x = None) \<Longrightarrow> first_some g xs = None"
  by (induction xs) auto

lemma first_some_hd: "g x = Some y \<Longrightarrow> first_some g (x # xs) = Some y"
  by simp

lemma step_Lit_same [simp]: "step (Lit c) f (c # r) = [(f, r)]"
  by (simp add: step_def)

lemma step_Lit_other [simp]: "x \<noteq> c \<Longrightarrow> step (Lit c) f (x # r) = []"
  by (simp add: step_def)

lemma step_d_pad2:
  "1 \<le> n \<Longrightarrow> n \<le> 31 \<Longrightarrow> \<exists>more. step Dird f (pad2 n @ r) = (f\<lparr>day := n\<rparr>, r) # more"
  using cand_d_pad2 [of n r] by (auto simp: step_def)

lemma step_m_pad2:
  "1 \<le> n \<Longrightarrow> n \<le> 12 \<Longrightarrow> \<exists>more. step Dirm f (pad2 n @ r) = (f\<lparr>month := n\<rparr>, r) # more"
  using cand_m_pad2 [of n r] by (auto simp: step_def)

lemma step_Y_pad4:
  "n \<le> 9999 \<Longrightarrow> step DirY f (pad4 n @ r) = [(f\<lparr>year := n\<rparr>, r)]"
  by (simp add: step_def cand_Y_pad4)

text \<open>Matching day, month, year in this order.\<close>

lemma match_dmy:
  assumes "1 \<le> dd" "dd \<le> 31" "1 \<le> mm" "mm \<le> 12" "yy \<le> 9999"
  shows "match_first [Dird, Lit c, Dirm, Lit c, DirY] f
           (pad2 dd @ [c] @ pad2 mm @ [c] @ pad4 yy @ r)
         = Some (f\<lparr>day := dd, month := mm, year := yy\<rparr>, r)"
proof -
  obtain m1 where 1: "step Dird f (pad2 dd @ c # pad2 mm @ c # pad4 yy @ r)
      = (f\<lparr>day := dd\<rparr>, c # pad2 mm @ c # pad4 yy @ r) # m1"
    using step_d_pad2 [OF assms(1,2)] by blast
  obtain m2 where 2: "step Dirm (f\<lparr>day := dd\<rparr>) (pad2 mm @ c # pad4 yy @ r)
      = (f\<lparr>day := dd, month := mm\<rparr>, c # pad4 yy @ r) # m2"
    using step_m_pad2 [OF assms(3,4)] by blast
  show ?thesis
    by (simp add: 1 2 step_Y_pad4 [OF assms(5)])
qed

lemma match_mdy:
  assumes "1 \<le> dd" "dd \<le> 31" "1 \<le> mm" "mm \<le> 12" "yy \<le> 9999"
  shows "match_first [Dirm, Lit c, Dird, Lit c, DirY] f
           (pad2 mm @ [c] @ pad2 dd @ [c] @ pad4 yy @ r)
         = Some (f\<lparr>month := mm, day := dd, year := yy\<rparr>, r)"
proof -
  obtain m1 where 1: "step Dirm f (pad2 mm @ c # pad2 dd @ c # pad4 yy @ r)
      = (f\<lparr>month := mm\<rparr>, c # pad2 dd @ c # pad4 yy @ r) # m1"
    using step_m_pad2 [OF assms(3,4)] by blast
  obtain m2 where 2: "step Dird (f\<lparr>month := mm\<rparr>) (pad2 dd @ c # pad4 yy @ r)
      = (f\<lparr>month := mm, day := dd\<rparr>, c # pad4 yy @ r) # m2"
    using step_d_pad2 [OF assms(1,2)] by blast
  show ?thesis
    by (simp add: 1 2 step_Y_pad4 [OF assms(5)])
qed

lemma match_ymd:
  assumes "1 \<le> dd" "dd \<le> 31" "1 \<le> mm" "mm \<le> 12" "yy \<le> 9999"
  shows "match_first [DirY, Lit c, Dirm, Lit c, Dird] f
           (pad4 yy @ [c] @ pad2 mm @ [c] @ pad2 dd @ r)
         = Some (f\<lparr>year := yy, month := mm, day := dd\<rparr>, r)"
proof -
  obtain m1 where 1: "step Dirm (f\<lparr>year := yy\<rparr>) (pad2 mm @ c # pad2 dd @ r)
      = (f\<lparr>year := yy, month := mm\<rparr>, c # pad2 dd @ r) # m1"
    using step_m_pad2 [OF assms(3,4)] by blast
  obtain m2 where 2: "step Dird (f\<lparr>year := yy, month := mm\<rparr>) (pad2 dd @ r)
      = (f\<lparr>year := yy, month := mm, day := dd\<rparr>, r) # m2"
    using step_d_pad2 [OF assms(1,2)] by blast
  show ?thesis
    by (simp add: 1 2 step_Y_pad4 [OF assms(5)])
qed

lemma cand_d_rests:
  "(v, r') \<in> set (cand_d (c1 # c2 # r)) \<Longrightarrow> r' = r \<or> r' = c2 # r"
  by (auto simp: cand_d_def two_digits_def one_digit_def split: if_splits)

lemma cand_m_rests:
  "(v, r') \<in> set (cand_m (c1 # c2 # r)) \<Longrightarrow> r' = r \<or> r' = c2 # r"
  by (auto simp: cand_m_def two_digits_def one_digit_def split: if_splits)

lemma step_d_rests:
  "(f', r') \<in> set (step Dird f (c1 # c2 # r)) \<Longrightarrow> r' = r \<or> r' = c2 # r"
  using cand_d_rests by (fastforce simp: step_def)

lemma step_m_rests:
  "(f', r') \<in> set (step Dirm f (c1 # c2 # r)) \<Longrightarrow> r' = r \<or> r' = c2 # r"
  using cand_m_rests by (fastforce simp: step_def)

lemma match_Lit_other [simp]: "x \<noteq> c \<Longrightarrow> match_first (Lit c # ds) f (x # r) = None"
  by simp

lemma match_d_lit_fail:
  assumes "x \<noteq> c" "c2 \<noteq> c"
  shows "match_first (Dird # Lit c # ds) f (c1 # c2 # x # r) = None"
proof -
  have "(\<lambda>(f', r'). match_first (Lit c # ds) f' r') p = None"
    if "p \<in> set (step Dird f (c1 # c2 # x # r))" for p
  proof -
    obtain f' r' where p: "p = (f', r')" by (cases p)
    with that step_d_rests have "r' = x # r \<or> r' = c2 # x # r" by blast
    with assms p show ?thesis by auto
  qed
  then show ?thesis
    by (subst match_first.simps) (rule first_some_None)
qed

lemma match_Y_fail:
  "\<not> is_digit c3 \<Longrightarrow> match_first (DirY # ds) f (c1 # c2 # c3 # r) = None"
  by (cases r) (simp_all add: step_def cand_Y_def)

lemma cand_m_big:
  assumes "13 \<le> n" "n \<le> 31" "(v, r') \<in> set (cand_m (pad2 n @ r))"
  shows "r' = digit_char n # r"
proof -
  have d: "n div 10 = 1 \<or> n div 10 = 2 \<or> n div 10 = 3" using assms by arith
  have a: "n div 10 = 1 \<Longrightarrow> 3 \<le> n mod 10" using assms by arith
  from d assms(3) a show ?thesis
    by (auto simp: cand_m_def pad2_def two_digits_def one_digit_def split: if_splits)
qed

lemma match_m_lit_big_fail:
  assumes "13 \<le> n" "n \<le> 31"
  shows "match_first (Dirm # Lit CHR ''/'' # ds) f (pad2 n @ r) = None"
proof -
  have "(\<lambda>(f', r'). match_first (Lit CHR ''/'' # ds) f' r') p = None"
    if "p \<in> set (step Dirm f (pad2 n @ r))" for p
  proof -
    obtain f' r' where p: "p = (f', r')" by (cases p)
    with that obtain v where "(v, r') \<in> set (cand_m (pad2 n @ r))"
      by (auto simp: step_def)
    with assms have "r' = digit_char n # r" by (rule cand_m_big)
    with p show ?thesis by simp
  qed
  then show ?thesis
    by (subst match_first.simps) (rule first_some_None)
qed

lemma match_dmy_slash_on_mdy_fail:
  assumes "13 \<le> dd" "dd \<le> 31"
  shows "match_first (Dird # Lit CHR ''/'' # Dirm # Lit CHR ''/'' # ds) f
           (pad2 mm @ ''/'' @ pad2 dd @ r) = None"
proof -
  have "(\<lambda>(f', r'). match_first (Lit CHR ''/'' # Dirm # Lit CHR ''/'' # ds) f' r') p = None"
    if "p \<in> set (step Dird f (pad2 mm @ ''/'' @ pad2 dd @ r))" for p
  proof -
    obtain f' r' where p: "p = (f', r')" by (cases p)
    with that have "r' = ''/'' @ pad2 dd @ r \<or> r' = digit_char mm # ''/'' @ pad2 dd @ r"
      using step_d_rests [of f' r' f "digit_char (mm div 10)" "digit_char mm" "''/'' @ pad2 dd @ r"]
      by (simp add: pad2_def)
    then show ?thesis
    proof
      assume "r' = ''/'' @ pad2 dd @ r"
      then show ?thesis using p match_m_lit_big_fail [OF assms] by simp
    next
      assume "r' = digit_char mm # ''/'' @ pad2 dd @ r"
      then show ?thesis using p by simp
    qed
  qed
  then show ?thesis
    by (subst match_first.simps) (rule first_some_None)
qed

lemma strip_id: "s \<noteq> [] \<Longrightarrow> \<not> is_space (hd s) \<Longrightarrow> \<not> is_space (last s) \<Longrightarrow> strip s = s"
proof -
  assume a: "s \<noteq> []" "\<not> is_space (hd s)" "\<not> is_space (last s)"
  from a(1,2) have 1: "dropWhile is_space s = s" by (cases s) auto
  from a(1,3) have 2: "dropWhile is_space (rev s) = rev s"
    by (cases "rev s") (auto simp: last_rev [symmetric] simp del: last_rev)
  show ?thesis by (simp add: strip_def 1 2)
qed

lemma valid_midnight_bounds:
  assumes "valid_datetime (midnight y m dd)"
  shows "1 \<le> y" "y \<le> 9999" "1 \<le> m" "m \<le> 12" "1 \<le> dd" "dd \<le> 31"
  using assms by (auto simp: valid_datetime_def midnight_def days_in_month_def split: if_splits)

lemma valid_midnight_swap:
  assumes "valid_datetime (midnight y m dd)" "dd \<le> 12"
  shows "valid_datetime (midnight y dd m)"
  using assms by (auto simp: valid_datetime_def midnight_def days_in_month_def split: if_splits)

lemma strptime_no_match: "match_first fmt (midnight 1900 1 1) s = None \<Longrightarrow> strptime s fmt = None"
  by (simp add: strptime_def)

lemma strptime_dmy:
  assumes "valid_datetime (midnight y m dd)"
  shows "strptime (render_dmy c (midnight y m dd)) [Dird, Lit c, Dirm, Lit c, DirY]
         = Some (midnight y m dd)"
proof -
  note b = valid_midnight_bounds [OF assms]
  have "match_first [Dird, Lit c, Dirm, Lit c, DirY] (midnight 1900 1 1)
          (pad2 dd @ [c] @ pad2 m @ [c] @ pad4 y @ [])
        = Some ((midnight 1900 1 1)\<lparr>day := dd, month := m, year := y\<rparr>, [])"
    using b by (intro match_dmy)
  moreover have "(midnight 1900 1 1)\<lparr>day := dd, month := m, year := y\<rparr> = midnight y m dd"
    by (simp add: midnight_def)
  ultimately show ?thesis using assms
    by (simp add: strptime_def render_dmy_def midnight_def)
qed

lemma strptime_ymd:
  assumes "valid_datetime (midnight y m dd)"
  shows "strptime (strftime_iso (midnight y m dd)) fmt_ymd = Some (midnight y m dd)"
proof -
  note b = valid_midnight_bounds [OF assms]
  have "match_first [DirY, Lit CHR ''-'', Dirm, Lit CHR ''-'', Dird] (midnight 1900 1 1)
          (pad4 y @ [CHR ''-''] @ pad2 m @ [CHR ''-''] @ pad2 dd @ [])
        = Some ((midnight 1900 1 1)\<lparr>year := y, month := m, day := dd\<rparr>, [])"
    using b by (intro match_ymd)
  moreover have "(midnight 1900 1 1)\<lparr>year := y, month := m, day := dd\<rparr> = midnight y m dd"
    by (simp add: midnight_def)
  ultimately show ?thesis using assms
    by (simp add: strptime_def strftime_iso_def fmt_ymd_def midnight_def)
qed

lemma strptime_mdy:
  assumes "valid_datetime (midnight y m dd)"
  shows "strptime (render MDY_slash (midnight y m dd)) fmt_mdy_slash = Some (midnight y m dd)"
proof -
  note b = valid_midnight_bounds [OF assms]
  have "match_first [Dirm, Lit CHR ''/'', Dird, Lit CHR ''/'', DirY] (midnight 1900 1 1)
          (pad2 m @ [CHR ''/''] @ pad2 dd @ [CHR ''/''] @ pad4 y @ [])
        = Some ((midnight 1900 1 1)\<lparr>month := m, day := dd, year := y\<rparr>, [])"
    using b by (intro match_mdy)
  moreover have "(midnight 1900 1 1)\<lparr>month := m, day := dd, year := y\<rparr> = midnight y m dd"
    by (simp add: midnight_def)
  ultimately show ?thesis using assms
    by (simp add: strptime_def render_def fmt_mdy_slash_def midnight_def)
qed

text \<open>A text of two digits and a separator is refused by the day-first formats of
  another separator.\<close>

lemma strptime_dmy_other_sep:
  assumes "x \<noteq> c" "c \<in> {CHR ''-'', CHR ''.'', CHR ''/''}"
  shows "strptime (pad2 a @ x # r) (Dird # Lit c # ds) = None"
proof -
  have "digit_char a \<noteq> c" using assms(2) by auto
  with assms(1) show ?thesis
    unfolding pad2_def append.simps by (intro strptime_no_match match_d_lit_fail)
qed

lemma strptime_dmy_on_iso:
  assumes "c \<in> {CHR ''-'', CHR ''.'', CHR ''/''}"
  shows "strptime (pad4 a @ r) (Dird # Lit c # ds) = None"
proof -
  have "digit_char (a div 100) \<noteq> c" "digit_char (a div 10) \<noteq> c" using assms by auto
  then show ?thesis
    unfolding pad4_def append.simps by (intro strptime_no_match match_d_lit_fail)
qed

lemma strptime_ymd_on_slash:
  "strptime (pad2 a @ CHR ''/'' # r) fmt_ymd = None"
  unfolding pad2_def append.simps fmt_ymd_def
  by (intro strptime_no_match match_Y_fail) simp

lemma strip_render: "strip (render l d) = render l d"
  by (cases l; intro strip_id)
     (simp_all add: render_def render_dmy_def strftime_iso_def pad2_def pad4_def)

lemma seps [simp]:
  "CHR ''-'' \<in> {CHR ''-'', CHR ''.'', CHR ''/''}"
  "CHR ''.'' \<in> {CHR ''-'', CHR ''.'', CHR ''/''}"
  "CHR ''/'' \<in> {CHR ''-'', CHR ''.'', CHR ''/''}"
  by simp_all

lemma parse_dmy_dash:
  assumes "valid_datetime (midnight y m dd)"
  shows "parse_date_text (render DMY_dash (midnight y m dd)) = Some (midnight y m dd)"
  using strptime_dmy [OF assms, of "CHR ''-''"]
  by (simp add: parse_date_text_def strip_render) (simp add: render_def fmt_dmy_dash_def)

lemma parse_dmy_dot:
  assumes "valid_datetime (midnight y m dd)"
  shows "parse_date_text (render DMY_dot (midnight y m dd)) = Some (midnight y m dd)"
proof -
  have "strptime (render DMY_dot (midnight y m dd)) fmt_dmy_dash = None"
    unfolding render_def render_dmy_def fmt_dmy_dash_def layout.case append.simps
    by (rule strptime_dmy_other_sep) simp_all
  moreover have "strptime (render DMY_dot (midnight y m dd)) fmt_dmy_dot = Some (midnight y m dd)"
    using strptime_dmy [OF assms, of "CHR ''.''"] by (simp add: render_def fmt_dmy_dot_def)
  ultimately show ?thesis by (simp add: parse_date_text_def strip_render)
qed

lemma parse_ymd:
  assumes "valid_datetime (midnight y m dd)"
  shows "parse_date_text (render YMD_dash (midnight y m dd)) = Some (midnight y m dd)"
proof -
  have "strptime (render YMD_dash (midnight y m dd)) fmt_dmy_dash = None"
    unfolding render_def strftime_iso_def fmt_dmy_dash_def layout.case
    by (rule strptime_dmy_on_iso) simp
  moreover have "strptime (render YMD_dash (midnight y m dd)) fmt_dmy_dot = None"
    unfolding render_def strftime_iso_def fmt_dmy_dot_def layout.case
    by (rule strptime_dmy_on_iso) simp
  moreover have "strptime (render YMD_dash (midnight y m dd)) fmt_ymd = Some (midnight y m dd)"
    using strptime_ymd [OF assms] by (simp add: render_def)
  ultimately show ?thesis by (simp add: parse_date_text_def strip_render)
qed

lemma slash_refused:
  "strptime (pad2 a @ CHR ''/'' # r) fmt_dmy_dash = None"
  "strptime (pad2 a @ CHR ''/'' # r) fmt_dmy_dot = None"
  "strptime (pad2 a @ CHR ''/'' # r) fmt_ymd = None"
proof -
  show "strptime (pad2 a @ CHR ''/'' # r) fmt_dmy_dash = None"
    unfolding fmt_dmy_dash_def by (rule strptime_dmy_other_sep) simp_all
  show "strptime (pad2 a @ CHR ''/'' # r) fmt_dmy_dot = None"
    unfolding fmt_dmy_dot_def by (rule strptime_dmy_other_sep) simp_all
  show "strptime (pad2 a @ CHR ''/'' # r) fmt_ymd = None"
    by (rule strptime_ymd_on_slash)
qed

lemma try_formats_slash:
  "parse_date_text (render l d) =
     (case strptime (render l d) fmt_dmy_slash of
        Some x \<Rightarrow> Some x
      | None \<Rightarrow> (case strptime (render l d) fmt_mdy_slash of Some x \<Rightarrow> Some x | None \<Rightarrow> None))"
  if h: "l = DMY_slash \<or> l = MDY_slash"
proof -
  have "\<exists>a r. render l d = pad2 a @ CHR ''/'' # r"
    using h by (elim disjE; simp add: render_def render_dmy_def; blast)
  then obtain a r where r: "render l d = pad2 a @ CHR ''/'' # r" by blast
  have "parse_date_text (render l d) =
      try_formats [fmt_dmy_dash, fmt_dmy_dot, fmt_ymd, fmt_dmy_slash, fmt_mdy_slash] (render l d)"
    by (simp only: parse_date_text_def strip_render)
  then show ?thesis unfolding r by (simp add: slash_refused split: option.splits)
qed

lemma parse_dmy_slash:
  assumes "valid_datetime (midnight y m dd)"
  shows "parse_date_text (render DMY_slash (midnight y m dd)) = Some (midnight y m dd)"
proof -
  have "strptime (render DMY_slash (midnight y m dd)) fmt_dmy_slash = Some (midnight y m dd)"
    using strptime_dmy [OF assms, of "CHR ''/''"] by (simp add: render_def fmt_dmy_slash_def)
  then show ?thesis by (simp add: try_formats_slash)
qed

lemma parse_mdy_small:
  assumes "valid_datetime (midnight y m dd)" "dd \<le> 12"
  shows "parse_date_text (render MDY_slash (midnight y m dd)) = Some (midnight y dd m)"
proof -
  have "strptime (render_dmy CHR ''/'' (midnight y dd m)) [Dird, Lit CHR ''/'', Dirm, Lit CHR ''/'', DirY]
        = Some (midnight y dd m)"
    by (rule strptime_dmy [OF valid_midnight_swap [OF assms]])
  then have "strptime (render MDY_slash (midnight y m dd)) fmt_dmy_slash = Some (midnight y dd m)"
    by (simp add: render_def render_dmy_def fmt_dmy_slash_def midnight_def)
  then show ?thesis by (simp add: try_formats_slash)
qed

lemma parse_mdy_big:
  assumes "valid_datetime (midnight y m dd)" "12 < dd"
  shows "parse_date_text (render MDY_slash (midnight y m dd)) = Some (midnight y m dd)"
proof -
  note b = valid_midnight_bounds [OF assms(1)]
  have "match_first (Dird # Lit CHR ''/'' # Dirm # Lit CHR ''/'' # [DirY]) (midnight 1900 1 1)
          (pad2 m @ ''/'' @ pad2 dd @ (''/'' @ pad4 y)) = None"
    using assms(2) b(6) by (intro match_dmy_slash_on_mdy_fail) simp_all
  then have "match_first fmt_dmy_slash (midnight 1900 1 1) (render MDY_slash (midnight y m dd)) = None"
    by (simp add: fmt_dmy_slash_def render_def midnight_def)
  then have "strptime (render MDY_slash (midnight y m dd)) fmt_dmy_slash = None"
    by (rule strptime_no_match)
  moreover have "strptime (render MDY_slash (midnight y m dd)) fmt_mdy_slash = Some (midnight y m dd)"
    by (rule strptime_mdy [OF assms(1)])
  ultimately show ?thesis by (simp add: try_formats_slash)
qed

section \<open>The Date Normalizer on the five layouts\<close>

text \<open>
  C3, as stated: for every calendar date and every one of the five layouts, the date
  printed in the layout is read back by \<open>parse_date\<close> as the same date. It fails for
  the month-first slash layout when the day is at most 12: 5 November 2025 printed as
  \<open>11/05/2025\<close> is read by the day-first slash format, tried before, as 11 May 2025.
\<close>

theorem parse_date_layouts_counterexample:
  "\<not> (\<forall>cv y m dd l. valid_datetime (midnight y m dd) \<longrightarrow>
        parse_date cv (PStr (render l (midnight y m dd))) = Some (midnight y m dd))"
proof
  assume "\<forall>cv y m dd l. valid_datetime (midnight y m dd) \<longrightarrow>
        parse_date cv (PStr (render l (midnight y m dd))) = Some (midnight y m dd)"
  then have "valid_datetime (midnight 2025 11 5) \<longrightarrow>
      parse_date \<lparr>num_repr = (\<lambda>_. []), text_float = (\<lambda>_. None)\<rparr>
        (PStr (render MDY_slash (midnight 2025 11 5))) = Some (midnight 2025 11 5)"
    by blast
  moreover have "valid_datetime (midnight 2025 11 5)"
    by (simp add: valid_datetime_def midnight_def days_in_month_def)
  moreover have "parse_date \<lparr>num_repr = (\<lambda>_. []), text_float = (\<lambda>_. None)\<rparr>
      (PStr (render MDY_slash (midnight 2025 11 5))) = Some (midnight 2025 5 11)"
    by code_simp
  ultimately show False by (simp add: midnight_def)
qed

text \<open>
  C3, amended: for every calendar date \<open>d\<close>, \<open>parse_date\<close> reads \<open>d\<close> back from its
  day-month-year layouts with dash, dot and slash and from its year-month-day layout;
  from the month-day-year slash layout it reads \<open>d\<close> back when the day is above 12, and
  the date with day and month exchanged when the day is at most 12 (which is \<open>d\<close> only
  if day and month are equal).
\<close>

theorem parse_date_layouts:
  assumes "valid_datetime (midnight y m dd)"
  shows "(\<forall>l. l \<noteq> MDY_slash \<longrightarrow>
            parse_date cv (PStr (render l (midnight y m dd))) = Some (midnight y m dd)) \<and>
         (12 < dd \<longrightarrow>
            parse_date cv (PStr (render MDY_slash (midnight y m dd))) = Some (midnight y m dd)) \<and>
         (dd \<le> 12 \<longrightarrow>
            parse_date cv (PStr (render MDY_slash (midnight y m dd))) = Some (midnight y dd m))"
proof (intro conjI allI impI)
  fix l :: layout
  assume "l \<noteq> MDY_slash"
  then show "parse_date cv (PStr (render l (midnight y m dd))) = Some (midnight y m dd)"
    using parse_dmy_dash [OF assms] parse_dmy_dot [OF assms] parse_ymd [OF assms]
      parse_dmy_slash [OF assms]
    by (cases l) (simp_all add: parse_date_def py_str_def)
next
  assume "12 < dd"
  then show "parse_date cv (PStr (render MDY_slash (midnight y m dd))) = Some (midnight y m dd)"
    using parse_mdy_big [OF assms] by (simp add: parse_date_def py_str_def)
next
  assume "dd \<le> 12"
  then show "parse_date cv (PStr (render MDY_slash (midnight y m dd))) = Some (midnight y dd m)"
    using parse_mdy_small [OF assms] by (simp add: parse_date_def py_str_def)
qed

theorem parse_date_layouts_witness:
  "parse_date \<lparr>num_repr = (\<lambda>_. []), text_float = (\<lambda>_. None)\<rparr> (PStr ''13-11-2025'')
     = Some (midnight 2025 11 13) \<and>
   parse_date \<lparr>num_repr = (\<lambda>_. []), text_float = (\<lambda>_. None)\<rparr> (PStr ''13.11.2025'')
     = Some (midnight 2025 11 13) \<and>
   parse_date \<lparr>num_repr = (\<lambda>_. []), text_float = (\<lambda>_. None)\<rparr> (PStr ''2025-11-13'')
     = Some (midnight 2025 11 13) \<and>
   parse_date \<lparr>num_repr = (\<lambda>_. []), text_float = (\<lambda>_. None)\<rparr> (PStr ''13/11/2025'')
     = Some (midnight 2025 11 13) \<and>
   parse_date \<lparr>num_repr = (\<lambda>_. []), text_float = (\<lambda>_. None)\<rparr> (PStr ''11/13/2025'')
     = Some (midnight 2025 11 13)"
proof -
  have v: "valid_datetime (midnight 2025 11 13)"
    by (simp add: valid_datetime_def midnight_def days_in_month_def)
  have r: "render DMY_dash (midnight 2025 11 13) = ''13-11-2025''"
    "render DMY_dot (midnight 2025 11 13) = ''13.11.2025''"
    "render YMD_dash (midnight 2025 11 13) = ''2025-11-13''"
    "render DMY_slash (midnight 2025 11 13) = ''13/11/2025''"
    "render MDY_slash (midnight 2025 11 13) = ''11/13/2025''"
    by (simp_all add: render_def render_dmy_def strftime_iso_def pad2_def pad4_def
        digit_char_def midnight_def)
  from parse_date_layouts [OF v, of "\<lparr>num_repr = (\<lambda>_. []), text_float = (\<lambda>_. None)\<rparr>"]
  have a: "\<And>l. l \<noteq> MDY_slash \<Longrightarrow>
      parse_date \<lparr>num_repr = (\<lambda>_. []), text_float = (\<lambda>_. None)\<rparr>
        (PStr (render l (midnight 2025 11 13))) = Some (midnight 2025 11 13)"
    and b: "parse_date \<lparr>num_repr = (\<lambda>_. []), text_float = (\<lambda>_. None)\<rparr>
        (PStr (render MDY_slash (midnight 2025 11 13))) = Some (midnight 2025 11 13)"
    by simp_all
  from a [of DMY_dash] a [of DMY_dot] a [of YMD_dash] a [of DMY_slash] b
  show ?thesis by (simp add: r)
qed

section \<open>The categorizers\<close>

lemma remove_aux_absent: "\<not> contains old s \<Longrightarrow> remove_aux old 0 s = s"
  by (induction s) auto

lemma strip_one_absent: "\<not> contains p s \<Longrightarrow> strip_one p s = s"
  by (simp add: strip_one_def)

lemma bank_scan_none:
  "\<forall>r \<in> set rs. \<not> contains (fst r) s \<Longrightarrow> bank_scan rs s = (s, '''', '''')"
  by (induction rs) auto

lemma bank_scan_first:
  "i < length rs \<Longrightarrow> contains (fst (rs ! i)) s \<Longrightarrow> \<forall>k<i. \<not> contains (fst (rs ! k)) s
   \<Longrightarrow> bank_scan rs s = bank_rule_result (rs ! i) s"
proof (induction rs arbitrary: i)
  case Nil
  then show ?case by simp
next
  case (Cons r rs)
  show ?case
  proof (cases i)
    case 0
    with Cons.prems show ?thesis by simp
  next
    case (Suc n)
    with Cons.prems have "\<not> contains (fst r) s" by auto
    moreover have "bank_scan rs s = bank_rule_result (rs ! n) s"
      using Cons.prems Suc by (intro Cons.IH) auto
    ultimately show ?thesis using Suc by simp
  qed
qed

lemma merchant_scan_first:
  "i < length rs \<Longrightarrow> contains (fst (rs ! i)) s \<Longrightarrow> \<forall>k<i. \<not> contains (fst (rs ! k)) s
   \<Longrightarrow> merchant_scan rs s = snd (rs ! i)"
proof (induction rs arbitrary: i)
  case Nil
  then show ?case by simp
next
  case (Cons r rs)
  show ?case
  proof (cases i)
    case 0
    with Cons.prems show ?thesis by simp
  next
    case (Suc n)
    with Cons.prems have "\<not> contains (fst r) s" by auto
    moreover have "merchant_scan rs s = snd (rs ! n)"
      using Cons.prems Suc by (intro Cons.IH) auto
    ultimately show ?thesis using Suc by simp
  qed
qed

lemma take_all_nth:
  "i < length rs \<Longrightarrow> \<forall>r \<in> set (take i rs). P r \<Longrightarrow> \<forall>k<i. P (rs ! k)"
  by (metis in_set_conv_nth length_take min.absorb4 nth_take)

text \<open>
  C8, as stated: a non-empty text whose prefix-stripped form matches no rule comes back
  unchanged, also when it holds one of the three prefixes. It fails at
  \<open>BCV-NET foo\<close>: no rule matches \<open>foo\<close> and the function returns \<open>foo\<close>.
\<close>

theorem no_match_returns_input_counterexample:
  "\<not> (\<forall>s. s \<noteq> [] \<and> (\<forall>r \<in> set bank_categories. \<not> contains (fst r) (strip_prefixes s)) \<longrightarrow>
         clean_bank_operation_and_categorize (Some s) = (s, '''', ''''))"
proof
  assume "\<forall>s. s \<noteq> [] \<and> (\<forall>r \<in> set bank_categories. \<not> contains (fst r) (strip_prefixes s)) \<longrightarrow>
         clean_bank_operation_and_categorize (Some s) = (s, '''', '''')"
  then have "''BCV-NET foo'' \<noteq> [] \<and>
      (\<forall>r \<in> set bank_categories. \<not> contains (fst r) (strip_prefixes ''BCV-NET foo'')) \<longrightarrow>
      clean_bank_operation_and_categorize (Some ''BCV-NET foo'') = (''BCV-NET foo'', '''', '''')"
    by blast
  moreover have "strip_prefixes ''BCV-NET foo'' = ''foo''"
    by (simp add: strip_prefixes_def strip_one_def str_remove_def)
  moreover have "\<forall>r \<in> set bank_categories. \<not> contains (fst r) ''foo''"
    by (simp add: bank_categories_def)
  moreover have "clean_bank_operation_and_categorize (Some ''BCV-NET foo'') = (''foo'', '''', '''')"
    by (simp add: clean_bank_operation_and_categorize_def strip_prefixes_def strip_one_def
        str_remove_def bank_categories_def)
  ultimately show False by simp
qed

text \<open>
  C8, amended: for every input text whose prefix-stripped form contains no rule pattern,
  \<open>clean_bank_operation_and_categorize\<close> returns the prefix-stripped text with empty
  category and empty sub-category; that text is the input itself when the input holds
  none of the three prefixes.
\<close>

theorem no_match_returns_stripped:
  assumes "\<forall>r \<in> set bank_categories. \<not> contains (fst r) (strip_prefixes s)"
  shows "clean_bank_operation_and_categorize (Some s) = (strip_prefixes s, '''', '''') \<and>
         (\<not> contains ''BCV-NET '' s \<and> \<not> contains ''VIRT BANC '' s \<and> \<not> contains ''VIR TWINT '' s
            \<longrightarrow> strip_prefixes s = s)"
  using assms
  by (simp add: clean_bank_operation_and_categorize_def bank_scan_none strip_prefixes_def
      strip_one_absent)

theorem no_match_returns_stripped_witness:
  "clean_bank_operation_and_categorize (Some ''VIRT BANC Dupont'') = (''Dupont'', '''', '''') \<and>
   clean_bank_operation_and_categorize (Some ''Dupont'') = (''Dupont'', '''', '''')"
proof -
  have s: "strip_prefixes ''VIRT BANC Dupont'' = ''Dupont''" "strip_prefixes ''Dupont'' = ''Dupont''"
    by (simp_all add: strip_prefixes_def strip_one_def str_remove_def)
  have h: "\<forall>r \<in> set bank_categories. \<not> contains (fst r) ''Dupont''"
    by (simp add: bank_categories_def)
  from h have h1: "\<forall>r \<in> set bank_categories. \<not> contains (fst r) (strip_prefixes ''VIRT BANC Dupont'')"
    by (simp only: s)
  from h have h2: "\<forall>r \<in> set bank_categories. \<not> contains (fst r) (strip_prefixes ''Dupont'')"
    by (simp only: s)
  from no_match_returns_stripped [OF h1] no_match_returns_stripped [OF h2]
  show ?thesis by (simp add: s)
qed

text \<open>
  C9: when the text a categorizer scans (the merchant text, or the operation text after
  the prefixes are stripped) contains the patterns of two rules \<open>i < j\<close> of its table,
  and of no rule before \<open>i\<close> (the rules of \<open>take i\<close> of the table), the result is what rule \<open>i\<close> alone gives: its label and
  category for a merchant; for an operation its replacement label, or the scanned text
  when it has none, with its category and sub-category. Rule \<open>j\<close> plays no part.
\<close>

theorem earlier_rule_wins:
  "(i < j \<and> j < length merchant_categories \<and>
    contains (fst (merchant_categories ! i)) s \<and> contains (fst (merchant_categories ! j)) s \<and>
    (\<forall>r \<in> set (take i merchant_categories). \<not> contains (fst r) s)
    \<longrightarrow> clean_merchant_and_categorize (Some s) = snd (merchant_categories ! i)) \<and>
   (i < j \<and> j < length bank_categories \<and>
    contains (fst (bank_categories ! i)) (strip_prefixes s) \<and>
    contains (fst (bank_categories ! j)) (strip_prefixes s) \<and>
    (\<forall>r \<in> set (take i bank_categories). \<not> contains (fst r) (strip_prefixes s))
    \<longrightarrow> clean_bank_operation_and_categorize (Some s)
          = bank_rule_result (bank_categories ! i) (strip_prefixes s))"
proof (intro conjI impI)
  assume "i < j \<and> j < length merchant_categories \<and>
    contains (fst (merchant_categories ! i)) s \<and> contains (fst (merchant_categories ! j)) s \<and>
    (\<forall>r \<in> set (take i merchant_categories). \<not> contains (fst r) s)"
  then have "i < length merchant_categories" "contains (fst (merchant_categories ! i)) s"
    "\<forall>k<i. \<not> contains (fst (merchant_categories ! k)) s"
    using take_all_nth [of i merchant_categories "\<lambda>r. \<not> contains (fst r) s"] by auto
  then show "clean_merchant_and_categorize (Some s) = snd (merchant_categories ! i)"
    by (simp add: clean_merchant_and_categorize_def merchant_scan_first)
next
  assume "i < j \<and> j < length bank_categories \<and>
    contains (fst (bank_categories ! i)) (strip_prefixes s) \<and>
    contains (fst (bank_categories ! j)) (strip_prefixes s) \<and>
    (\<forall>r \<in> set (take i bank_categories). \<not> contains (fst r) (strip_prefixes s))"
  then have "i < length bank_categories"
    "contains (fst (bank_categories ! i)) (strip_prefixes s)"
    "\<forall>k<i. \<not> contains (fst (bank_categories ! k)) (strip_prefixes s)"
    using take_all_nth [of i bank_categories "\<lambda>r. \<not> contains (fst r) (strip_prefixes s)"]
    by auto
  then show "clean_bank_operation_and_categorize (Some s)
      = bank_rule_result (bank_categories ! i) (strip_prefixes s)"
    by (simp add: clean_bank_operation_and_categorize_def bank_scan_first)
qed

theorem earlier_rule_wins_witness:
  "clean_merchant_and_categorize (Some ''Coop Pronto, Sun Store'') = (''Coop'', ''Food'') \<and>
   clean_bank_operation_and_categorize (Some ''BCV-NET Duol pour Leni'')
     = (''Duol pour Leni'', ''Chant Cred'', ''Duol'')"
proof -
  have s: "strip_prefixes ''BCV-NET Duol pour Leni'' = ''Duol pour Leni''"
    by (simp add: strip_prefixes_def strip_one_def str_remove_def)
  have m: "(5::nat) < 13 \<and> 13 < length merchant_categories \<and>
    contains (fst (merchant_categories ! 5)) ''Coop Pronto, Sun Store'' \<and>
    contains (fst (merchant_categories ! 13)) ''Coop Pronto, Sun Store'' \<and>
    (\<forall>r \<in> set (take 5 merchant_categories). \<not> contains (fst r) ''Coop Pronto, Sun Store'')"
    by (simp add: merchant_categories_def)
  have b: "(1::nat) < 3 \<and> 3 < length bank_categories \<and>
    contains (fst (bank_categories ! 1)) (strip_prefixes ''BCV-NET Duol pour Leni'') \<and>
    contains (fst (bank_categories ! 3)) (strip_prefixes ''BCV-NET Duol pour Leni'') \<and>
    (\<forall>r \<in> set (take 1 bank_categories).
       \<not> contains (fst r) (strip_prefixes ''BCV-NET Duol pour Leni''))"
    by (simp add: s) (simp add: bank_categories_def)
  from earlier_rule_wins [of 5 13 "''Coop Pronto, Sun Store''"] m
  have 1: "clean_merchant_and_categorize (Some ''Coop Pronto, Sun Store'')
      = snd (merchant_categories ! 5)"
    by blast
  from earlier_rule_wins [of 1 3 "''BCV-NET Duol pour Leni''"] b
  have 2: "clean_bank_operation_and_categorize (Some ''BCV-NET Duol pour Leni'')
      = bank_rule_result (bank_categories ! 1) (strip_prefixes ''BCV-NET Duol pour Leni'')"
    by blast
  show ?thesis
    by (simp add: 1 2 s) (simp add: merchant_categories_def bank_categories_def bank_rule_result_def)
qed

section \<open>The candidates a loop appends\<close>

lemma upt_Suc_shift: "[0..<Suc n] = 0 # map Suc [0..<n]"
  by (simp add: upt_conv_Cons map_Suc_upt del: upt_Suc)

lemma appended_first_new:
  "appended key X ts = map (\<lambda>i. ts ! i) (first_new key X ts)"
proof (induction ts arbitrary: X)
  case Nil
  then show ?case by (simp add: first_new_def)
next
  case (Cons t ts)
  have shift: "filter (\<lambda>i. key ((t # ts) ! i) \<notin> X \<and> key ((t # ts) ! i) \<notin> key ` set (take i (t # ts)))
                 (map Suc [0..<length ts])
             = map Suc (first_new key (insert (key t) X) ts)"
    by (simp add: first_new_def filter_map o_def) (metis (lifting) insert_iff)
  show ?case
  proof (cases "key t \<in> X")
    case True
    then have "insert (key t) X = X" by auto
    with True Cons.IH [of X] shift show ?thesis
      by (simp add: first_new_def [of key X "t # ts"] upt_Suc_shift o_def del: upt_Suc)
  next
    case False
    with Cons.IH [of "insert (key t) X"] shift show ?thesis
      by (simp add: first_new_def [of key X "t # ts"] upt_Suc_shift o_def del: upt_Suc)
  qed
qed

lemma duplicates_later_or_known:
  "duplicates key X ts = map (\<lambda>i. ts ! i) (later_or_known key X ts)"
proof (induction ts arbitrary: X)
  case Nil
  then show ?case by (simp add: later_or_known_def)
next
  case (Cons t ts)
  have shift: "filter (\<lambda>i. key ((t # ts) ! i) \<in> X \<or> key ((t # ts) ! i) \<in> key ` set (take i (t # ts)))
                 (map Suc [0..<length ts])
             = map Suc (later_or_known key (insert (key t) X) ts)"
    by (simp add: later_or_known_def filter_map o_def) (metis (lifting) insert_iff)
  show ?case
  proof (cases "key t \<in> X")
    case True
    then have "insert (key t) X = X" by auto
    with True Cons.IH [of X] shift show ?thesis
      by (simp add: later_or_known_def [of key X "t # ts"] upt_Suc_shift o_def del: upt_Suc)
  next
    case False
    with Cons.IH [of "insert (key t) X"] shift show ?thesis
      by (simp add: later_or_known_def [of key X "t # ts"] upt_Suc_shift o_def del: upt_Suc)
  qed
qed

lemma appended_keys_new: "key ` set (appended key X ts) \<inter> X = {}"
  by (induction ts arbitrary: X) auto

lemma appended_distinct: "distinct (map key (appended key X ts))"
proof (induction ts arbitrary: X)
  case Nil
  then show ?case by simp
next
  case (Cons t ts)
  have "key t \<notin> key ` set (appended key (insert (key t) X) ts)"
    using appended_keys_new [of key "insert (key t) X" ts] by auto
  with Cons.IH show ?case by simp
qed

lemma length_appended_duplicates:
  "length (appended key X ts) + length (duplicates key X ts) = length ts"
  by (induction ts arbitrary: X) auto

section \<open>Cells after a write\<close>

lemma cell_value_set_value [simp]:
  "cell_value (set_value c r v sh) c' r' = (if c' = c \<and> r' = r then v else cell_value sh c' r')"
  by (simp add: cell_value_def set_value_def)

lemma cell_value_set_bold [simp]:
  "cell_value (set_bold c r sh) c' r' = cell_value sh c' r'"
  by (simp add: cell_value_def set_bold_def)

lemma cbold_set_value [simp]:
  "cbold (cells (set_value c r v sh) p) = cbold (cells sh p)"
  by (simp add: set_value_def)

lemma cbold_set_bold [simp]:
  "cbold (cells (set_bold c r sh) p) = (p = (c, r) \<or> cbold (cells sh p))"
  by (simp add: set_bold_def)

lemma write_duplicate_cells:
  "cell_value (write_duplicate reason t r sh) c r' =
     (if r' = r then
        (case c of ColA \<Rightarrow> PStr (strftime_dot (tx_date t)) | ColB \<Rightarrow> PStr (tx_merchant t)
         | ColC \<Rightarrow> PNum (tx_amount t) | ColD \<Rightarrow> PStr (tx_category t)
         | ColE \<Rightarrow> PStr reason | ColF \<Rightarrow> cell_value sh ColF r)
      else cell_value sh c r')"
  by (cases c) (simp_all add: write_duplicate_def)

lemma write_ledger_row_other:
  "r' \<noteq> r \<Longrightarrow> cell_value (write_ledger_row od t r sh) c r' = cell_value sh c r'"
  by (simp add: write_ledger_row_def Let_def)

lemma write_ledger_row_here:
  "cell_value (write_ledger_row od t r sh) ColA r = PStr (strftime_dot (tx_date t))"
  "cell_value (write_ledger_row od t r sh) ColB r = PStr (tx_merchant t)"
  "cell_value (write_ledger_row od t r sh) ColC r = PNum (tx_amount t)"
  by (simp_all add: write_ledger_row_def Let_def)

lemma write_ledger_row_bold_other:
  "r' \<noteq> r \<Longrightarrow> cbold (cells (write_ledger_row od t r sh) (c, r')) = cbold (cells sh (c, r'))"
  by (simp add: write_ledger_row_def Let_def)

lemma write_ledger_row_bold_here:
  "cbold (cells (write_ledger_row od t r sh) (ColA, r)) =
     (od = Some (tx_date t) \<or> cbold (cells sh (ColA, r)))"
  by (simp add: write_ledger_row_def Let_def)

section \<open>The loop of the CSV writers\<close>

lemma csv_loop_next_row:
  "next_row (write_csv_loop reason od ts s)
     = next_row s + length (appended trans_tuple (existing_data s) ts)"
  by (induction ts arbitrary: s) (simp_all add: write_csv_step_def)

lemma csv_loop_next_duplicate_row:
  "next_duplicate_row (write_csv_loop reason od ts s)
     = next_duplicate_row s + length (duplicates trans_tuple (existing_data s) ts)"
  by (induction ts arbitrary: s) (simp_all add: write_csv_step_def)

lemma csv_loop_counters:
  "new_transactions_added (write_csv_loop reason od ts s)
     = new_transactions_added s + length (appended trans_tuple (existing_data s) ts)"
  "duplicates_found (write_csv_loop reason od ts s)
     = duplicates_found s + length (duplicates trans_tuple (existing_data s) ts)"
  by (induction ts arbitrary: s) (simp_all add: write_csv_step_def)

lemma csv_loop_existing:
  "existing_data (write_csv_loop reason od ts s) = existing_data s \<union> trans_tuple ` set ts"
  by (induction ts arbitrary: s) (auto simp: write_csv_step_def)

lemma csv_loop_frame:
  "r < next_row s \<Longrightarrow>
   cell_value (worksheet (write_csv_loop reason od ts s)) c r = cell_value (worksheet s) c r"
  by (induction ts arbitrary: s) (simp_all add: write_csv_step_def write_ledger_row_other)

lemma csv_loop_bold_frame:
  "r < next_row s \<Longrightarrow>
   cbold (cells (worksheet (write_csv_loop reason od ts s)) (c, r)) = cbold (cells (worksheet s) (c, r))"
  by (induction ts arbitrary: s) (simp_all add: write_csv_step_def write_ledger_row_bold_other)

lemma csv_loop_dup_frame:
  "r < next_duplicate_row s \<Longrightarrow>
   cell_value (duplicate_worksheet (write_csv_loop reason od ts s)) c r
     = cell_value (duplicate_worksheet s) c r"
  by (induction ts arbitrary: s) (simp_all add: write_csv_step_def write_duplicate_cells)

lemma csv_loop_rows:
  assumes "k < length (appended trans_tuple (existing_data s) ts)"
  shows "cell_value (worksheet (write_csv_loop reason od ts s)) ColA (next_row s + k)
           = PStr (strftime_dot (tx_date (appended trans_tuple (existing_data s) ts ! k))) \<and>
         cell_value (worksheet (write_csv_loop reason od ts s)) ColB (next_row s + k)
           = PStr (tx_merchant (appended trans_tuple (existing_data s) ts ! k)) \<and>
         cell_value (worksheet (write_csv_loop reason od ts s)) ColC (next_row s + k)
           = PNum (tx_amount (appended trans_tuple (existing_data s) ts ! k)) \<and>
         cbold (cells (worksheet (write_csv_loop reason od ts s)) (ColA, next_row s + k))
           = (od = Some (tx_date (appended trans_tuple (existing_data s) ts ! k))
              \<or> cbold (cells (worksheet s) (ColA, next_row s + k)))"
  using assms
proof (induction ts arbitrary: s k)
  case Nil
  then show ?case by simp
next
  case (Cons t ts)
  let ?s' = "write_csv_step reason od t s"
  show ?case
  proof (cases "trans_tuple t \<in> existing_data s")
    case True
    then have e: "existing_data ?s' = existing_data s" "next_row ?s' = next_row s"
      "worksheet ?s' = worksheet s"
      by (simp_all add: write_csv_step_def)
    from True Cons.prems have "k < length (appended trans_tuple (existing_data ?s') ts)"
      by (simp add: e)
    from Cons.IH [OF this] True show ?thesis by (simp add: e)
  next
    case False
    then have e: "existing_data ?s' = insert (trans_tuple t) (existing_data s)"
      "next_row ?s' = next_row s + 1"
      "worksheet ?s' = write_ledger_row od t (next_row s) (worksheet s)"
      by (simp_all add: write_csv_step_def)
    show ?thesis
    proof (cases k)
      case 0
      have "next_row s < next_row ?s'" by (simp add: e)
      then show ?thesis using False 0
        by (simp add: csv_loop_frame csv_loop_bold_frame e write_ledger_row_here
            write_ledger_row_bold_here)
    next
      case (Suc n)
      with False Cons.prems have "n < length (appended trans_tuple (existing_data ?s') ts)"
        by (simp add: e)
      from Cons.IH [OF this] False Suc show ?thesis
        by (simp add: e write_ledger_row_bold_other)
    qed
  qed
qed

lemma csv_loop_dup_rows:
  assumes "k < length (duplicates trans_tuple (existing_data s) ts)"
  shows "cell_value (duplicate_worksheet (write_csv_loop reason od ts s)) ColA (next_duplicate_row s + k)
           = PStr (strftime_dot (tx_date (duplicates trans_tuple (existing_data s) ts ! k))) \<and>
         cell_value (duplicate_worksheet (write_csv_loop reason od ts s)) ColB (next_duplicate_row s + k)
           = PStr (tx_merchant (duplicates trans_tuple (existing_data s) ts ! k)) \<and>
         cell_value (duplicate_worksheet (write_csv_loop reason od ts s)) ColC (next_duplicate_row s + k)
           = PNum (tx_amount (duplicates trans_tuple (existing_data s) ts ! k)) \<and>
         cell_value (duplicate_worksheet (write_csv_loop reason od ts s)) ColD (next_duplicate_row s + k)
           = PStr (tx_category (duplicates trans_tuple (existing_data s) ts ! k)) \<and>
         cell_value (duplicate_worksheet (write_csv_loop reason od ts s)) ColE (next_duplicate_row s + k)
           = PStr reason"
  using assms
proof (induction ts arbitrary: s k)
  case Nil
  then show ?case by simp
next
  case (Cons t ts)
  let ?s' = "write_csv_step reason od t s"
  show ?case
  proof (cases "trans_tuple t \<in> existing_data s")
    case False
    then have e: "existing_data ?s' = insert (trans_tuple t) (existing_data s)"
      "next_duplicate_row ?s' = next_duplicate_row s"
      "duplicate_worksheet ?s' = duplicate_worksheet s"
      by (simp_all add: write_csv_step_def)
    from False Cons.prems have "k < length (duplicates trans_tuple (existing_data ?s') ts)"
      by (simp add: e)
    from Cons.IH [OF this] False show ?thesis by (simp add: e)
  next
    case True
    then have e: "existing_data ?s' = existing_data s"
      "next_duplicate_row ?s' = next_duplicate_row s + 1"
      "duplicate_worksheet ?s'
         = write_duplicate reason t (next_duplicate_row s) (duplicate_worksheet s)"
      by (simp_all add: write_csv_step_def)
    show ?thesis
    proof (cases k)
      case 0
      have "next_duplicate_row s < next_duplicate_row ?s'" by (simp add: e)
      then show ?thesis using True 0
        by (simp add: csv_loop_dup_frame e write_duplicate_cells)
    next
      case (Suc n)
      with True Cons.prems have "n < length (duplicates trans_tuple (existing_data ?s') ts)"
        by (simp add: e)
      from Cons.IH [OF this] True Suc show ?thesis
        by (simp add: e)
    qed
  qed
qed

section \<open>The loop of the bank writer\<close>

lemma write_bcv_row_other:
  "r' \<noteq> r \<Longrightarrow> cell_value (write_bcv_row od t r sh) c r' = cell_value sh c r'"
  by (simp add: write_bcv_row_def Let_def)

lemma write_bcv_row_here:
  "cell_value (write_bcv_row od t r sh) ColA r = PStr (strftime_dot (bt_date t))"
  "cell_value (write_bcv_row od t r sh) ColB r = PStr (bt_operation t)"
  "cell_value (write_bcv_row od t r sh) ColC r
     = (if bt_debit t \<noteq> 0 then PNum (bt_debit t) else PStr [])"
  "cell_value (write_bcv_row od t r sh) ColD r
     = (if bt_credit t \<noteq> 0 then PNum (bt_credit t) else PStr [])"
  by (simp_all add: write_bcv_row_def Let_def)

lemma bank_loop_next_row:
  "bank_next_row (write_bank_loop od ts s)
     = bank_next_row s + length (appended bank_tuple (bank_existing s) ts)"
  by (induction ts arbitrary: s) (simp_all add: write_bank_step_def)

lemma bank_loop_counters:
  "bank_added (write_bank_loop od ts s)
     = bank_added s + length (appended bank_tuple (bank_existing s) ts)"
  "duplicates_skipped (write_bank_loop od ts s)
     = duplicates_skipped s + length (duplicates bank_tuple (bank_existing s) ts)"
  by (induction ts arbitrary: s) (simp_all add: write_bank_step_def)

lemma bank_loop_existing:
  "bank_existing (write_bank_loop od ts s) = bank_existing s \<union> bank_tuple ` set ts"
  by (induction ts arbitrary: s) (auto simp: write_bank_step_def)

lemma bank_loop_frame:
  "r < bank_next_row s \<Longrightarrow>
   cell_value (sheet_bcv (write_bank_loop od ts s)) c r = cell_value (sheet_bcv s) c r"
  by (induction ts arbitrary: s) (simp_all add: write_bank_step_def write_bcv_row_other)

lemma bank_loop_rows:
  assumes "k < length (appended bank_tuple (bank_existing s) ts)"
  shows "cell_value (sheet_bcv (write_bank_loop od ts s)) ColA (bank_next_row s + k)
           = PStr (strftime_dot (bt_date (appended bank_tuple (bank_existing s) ts ! k))) \<and>
         cell_value (sheet_bcv (write_bank_loop od ts s)) ColB (bank_next_row s + k)
           = PStr (bt_operation (appended bank_tuple (bank_existing s) ts ! k))"
  using assms
proof (induction ts arbitrary: s k)
  case Nil
  then show ?case by simp
next
  case (Cons t ts)
  let ?s' = "write_bank_step od t s"
  show ?case
  proof (cases "bank_tuple t \<in> bank_existing s")
    case True
    then have e: "bank_existing ?s' = bank_existing s" "bank_next_row ?s' = bank_next_row s"
      "sheet_bcv ?s' = sheet_bcv s"
      by (simp_all add: write_bank_step_def)
    from True Cons.prems have "k < length (appended bank_tuple (bank_existing ?s') ts)"
      by (simp add: e)
    from Cons.IH [OF this] True show ?thesis by (simp add: e)
  next
    case False
    then have e: "bank_existing ?s' = insert (bank_tuple t) (bank_existing s)"
      "bank_next_row ?s' = bank_next_row s + 1"
      "sheet_bcv ?s' = write_bcv_row od t (bank_next_row s) (sheet_bcv s)"
      by (simp_all add: write_bank_step_def)
    show ?thesis
    proof (cases k)
      case 0
      have "bank_next_row s < bank_next_row ?s'" by (simp add: e)
      then show ?thesis using False 0
        by (simp add: bank_loop_frame e write_bcv_row_here)
    next
      case (Suc n)
      with False Cons.prems have "n < length (appended bank_tuple (bank_existing ?s') ts)"
        by (simp add: e)
      from Cons.IH [OF this] False Suc show ?thesis
        by (simp add: e)
    qed
  qed
qed

section \<open>First occurrences\<close>

lemma first_new_later:
  assumes "i < j" "j < length ts" "key (ts ! i) = key (ts ! j)"
  shows "j \<notin> set (first_new key X ts)" "j \<in> set (later_or_known key X ts)"
proof -
  have "ts ! i \<in> set (take j ts)"
    using assms(1,2) by (metis in_set_conv_nth length_take min.absorb4 nth_take order.strict_trans)
  then have "key (ts ! i) \<in> key ` set (take j ts)" by (rule imageI)
  then have "key (ts ! j) \<in> key ` set (take j ts)" by (simp only: assms(3))
  then show "j \<notin> set (first_new key X ts)" "j \<in> set (later_or_known key X ts)"
    using assms(2) by (simp_all add: first_new_def later_or_known_def)
qed

lemma first_new_first:
  assumes "j < length ts" "key (ts ! j) \<notin> X" "\<forall>i<j. key (ts ! i) \<noteq> key (ts ! j)"
  shows "j \<in> set (first_new key X ts)"
proof -
  have "key (ts ! j) \<notin> key ` set (take j ts)"
  proof
    assume "key (ts ! j) \<in> key ` set (take j ts)"
    then obtain x where "x \<in> set (take j ts)" "key x = key (ts ! j)" by auto
    then obtain i where "i < j" "ts ! i = x"
      using assms(1) by (metis in_set_conv_nth length_take min.absorb4 nth_take)
    with \<open>key x = key (ts ! j)\<close> assms(3) show False by auto
  qed
  with assms show ?thesis by (simp add: first_new_def)
qed

section \<open>Duplicates within a batch\<close>

text \<open>
  C4: in the loops of the account-statement and the bank pipeline, run over a batch
  \<open>ts\<close> from any state, a candidate whose key equals the key of an earlier candidate of
  the batch is never appended, and a candidate whose key is neither in the set at the
  start nor the key of an earlier candidate is appended: of candidates with one key,
  exactly the first is appended, unless the ledger knew the key already. The keys of
  the appended candidates are pairwise distinct, all keys of the batch end in the set,
  and the rows from \<open>next_row\<close> on hold the appended candidates in processing order,
  one row each; every other candidate is counted as a duplicate.
\<close>

theorem first_of_batch_wins:
  "(\<forall>i j. i < j \<and> j < length ts \<and> trans_tuple (ts ! i) = trans_tuple (ts ! j) \<longrightarrow>
      j \<notin> set (first_new trans_tuple (existing_data s) ts) \<and>
      j \<in> set (later_or_known trans_tuple (existing_data s) ts)) \<and>
   (\<forall>j. j < length ts \<and> trans_tuple (ts ! j) \<notin> existing_data s \<and>
        (\<forall>i<j. trans_tuple (ts ! i) \<noteq> trans_tuple (ts ! j)) \<longrightarrow>
      j \<in> set (first_new trans_tuple (existing_data s) ts)) \<and>
   distinct (map (\<lambda>i. trans_tuple (ts ! i)) (first_new trans_tuple (existing_data s) ts)) \<and>
   existing_data (write_csv_loop reason od ts s) = existing_data s \<union> trans_tuple ` set ts \<and>
   next_row (write_csv_loop reason od ts s)
     = next_row s + length (first_new trans_tuple (existing_data s) ts) \<and>
   new_transactions_added (write_csv_loop reason od ts s)
     = new_transactions_added s + length (first_new trans_tuple (existing_data s) ts) \<and>
   duplicates_found (write_csv_loop reason od ts s)
     = duplicates_found s + length (later_or_known trans_tuple (existing_data s) ts) \<and>
   (\<forall>k < length (first_new trans_tuple (existing_data s) ts).
      ledger_row_holds (worksheet (write_csv_loop reason od ts s)) (next_row s + k)
        (ts ! (first_new trans_tuple (existing_data s) ts ! k))) \<and>
   (\<forall>i j. i < j \<and> j < length bs \<and> bank_tuple (bs ! i) = bank_tuple (bs ! j) \<longrightarrow>
      j \<notin> set (first_new bank_tuple (bank_existing b) bs) \<and>
      j \<in> set (later_or_known bank_tuple (bank_existing b) bs)) \<and>
   (\<forall>j. j < length bs \<and> bank_tuple (bs ! j) \<notin> bank_existing b \<and>
        (\<forall>i<j. bank_tuple (bs ! i) \<noteq> bank_tuple (bs ! j)) \<longrightarrow>
      j \<in> set (first_new bank_tuple (bank_existing b) bs)) \<and>
   distinct (map (\<lambda>i. bank_tuple (bs ! i)) (first_new bank_tuple (bank_existing b) bs)) \<and>
   bank_existing (write_bank_loop obd bs b) = bank_existing b \<union> bank_tuple ` set bs \<and>
   bank_next_row (write_bank_loop obd bs b)
     = bank_next_row b + length (first_new bank_tuple (bank_existing b) bs) \<and>
   bank_added (write_bank_loop obd bs b)
     = bank_added b + length (first_new bank_tuple (bank_existing b) bs) \<and>
   duplicates_skipped (write_bank_loop obd bs b)
     = duplicates_skipped b + length (later_or_known bank_tuple (bank_existing b) bs) \<and>
   (\<forall>k < length (first_new bank_tuple (bank_existing b) bs).
      bcv_row_holds (sheet_bcv (write_bank_loop obd bs b)) (bank_next_row b + k)
        (bs ! (first_new bank_tuple (bank_existing b) bs ! k)))"
proof -
  have a: "appended trans_tuple (existing_data s) ts
      = map (\<lambda>i. ts ! i) (first_new trans_tuple (existing_data s) ts)"
    by (rule appended_first_new)
  have d: "duplicates trans_tuple (existing_data s) ts
      = map (\<lambda>i. ts ! i) (later_or_known trans_tuple (existing_data s) ts)"
    by (rule duplicates_later_or_known)
  have ab: "appended bank_tuple (bank_existing b) bs
      = map (\<lambda>i. bs ! i) (first_new bank_tuple (bank_existing b) bs)"
    by (rule appended_first_new)
  have db: "duplicates bank_tuple (bank_existing b) bs
      = map (\<lambda>i. bs ! i) (later_or_known bank_tuple (bank_existing b) bs)"
    by (rule duplicates_later_or_known)
  have 1: "distinct (map (\<lambda>i. trans_tuple (ts ! i)) (first_new trans_tuple (existing_data s) ts))"
    using appended_distinct [of trans_tuple "existing_data s" ts] by (simp add: a o_def)
  have 2: "distinct (map (\<lambda>i. bank_tuple (bs ! i)) (first_new bank_tuple (bank_existing b) bs))"
    using appended_distinct [of bank_tuple "bank_existing b" bs] by (simp add: ab o_def)
  have 3: "ledger_row_holds (worksheet (write_csv_loop reason od ts s)) (next_row s + k)
        (ts ! (first_new trans_tuple (existing_data s) ts ! k))"
    if "k < length (first_new trans_tuple (existing_data s) ts)" for k
    using csv_loop_rows [of k s ts reason od] that by (simp add: a ledger_row_holds_def)
  have 4: "bcv_row_holds (sheet_bcv (write_bank_loop obd bs b)) (bank_next_row b + k)
        (bs ! (first_new bank_tuple (bank_existing b) bs ! k))"
    if "k < length (first_new bank_tuple (bank_existing b) bs)" for k
    using bank_loop_rows [of k b bs obd] that by (simp add: ab bcv_row_holds_def)
  have 5: "next_row (write_csv_loop reason od ts s)
     = next_row s + length (first_new trans_tuple (existing_data s) ts)"
    "new_transactions_added (write_csv_loop reason od ts s)
     = new_transactions_added s + length (first_new trans_tuple (existing_data s) ts)"
    "duplicates_found (write_csv_loop reason od ts s)
     = duplicates_found s + length (later_or_known trans_tuple (existing_data s) ts)"
    by (simp_all add: csv_loop_next_row csv_loop_counters a d)
  have 6: "bank_next_row (write_bank_loop obd bs b)
     = bank_next_row b + length (first_new bank_tuple (bank_existing b) bs)"
    "bank_added (write_bank_loop obd bs b)
     = bank_added b + length (first_new bank_tuple (bank_existing b) bs)"
    "duplicates_skipped (write_bank_loop obd bs b)
     = duplicates_skipped b + length (later_or_known bank_tuple (bank_existing b) bs)"
    by (simp_all add: bank_loop_next_row bank_loop_counters ab db)
  have 7: "\<forall>i j. i < j \<and> j < length ts \<and> trans_tuple (ts ! i) = trans_tuple (ts ! j) \<longrightarrow>
      j \<notin> set (first_new trans_tuple (existing_data s) ts) \<and>
      j \<in> set (later_or_known trans_tuple (existing_data s) ts)"
    using first_new_later [of _ _ ts trans_tuple "existing_data s"] by blast
  have 8: "\<forall>j. j < length ts \<and> trans_tuple (ts ! j) \<notin> existing_data s \<and>
        (\<forall>i<j. trans_tuple (ts ! i) \<noteq> trans_tuple (ts ! j)) \<longrightarrow>
      j \<in> set (first_new trans_tuple (existing_data s) ts)"
    using first_new_first [of _ ts trans_tuple "existing_data s"] by blast
  have 9: "\<forall>i j. i < j \<and> j < length bs \<and> bank_tuple (bs ! i) = bank_tuple (bs ! j) \<longrightarrow>
      j \<notin> set (first_new bank_tuple (bank_existing b) bs) \<and>
      j \<in> set (later_or_known bank_tuple (bank_existing b) bs)"
    using first_new_later [of _ _ bs bank_tuple "bank_existing b"] by blast
  have 10: "\<forall>j. j < length bs \<and> bank_tuple (bs ! j) \<notin> bank_existing b \<and>
        (\<forall>i<j. bank_tuple (bs ! i) \<noteq> bank_tuple (bs ! j)) \<longrightarrow>
      j \<in> set (first_new bank_tuple (bank_existing b) bs)"
    using first_new_first [of _ bs bank_tuple "bank_existing b"] by blast
  have 11: "\<forall>k < length (first_new trans_tuple (existing_data s) ts).
      ledger_row_holds (worksheet (write_csv_loop reason od ts s)) (next_row s + k)
        (ts ! (first_new trans_tuple (existing_data s) ts ! k))"
    using 3 by blast
  have 12: "\<forall>k < length (first_new bank_tuple (bank_existing b) bs).
      bcv_row_holds (sheet_bcv (write_bank_loop obd bs b)) (bank_next_row b + k)
        (bs ! (first_new bank_tuple (bank_existing b) bs ! k))"
    using 4 by blast
  note 13 = csv_loop_existing [of reason od ts s]
  note 14 = bank_loop_existing [of obd bs b]
  show ?thesis
    by (intro conjI) (fact 7 8 1 13 5 11 9 10 2 14 6 12)+
qed

theorem first_of_batch_wins_witness:
  "new_transactions_added
     (write_csv_loop ''Duplicate from account statement'' None [migros_txn, migros_txn]
        fresh_csv_state) = 1 \<and>
   duplicates_found
     (write_csv_loop ''Duplicate from account statement'' None [migros_txn, migros_txn]
        fresh_csv_state) = 1 \<and>
   bank_added
     (write_bank_loop None [duol_txn, duol_txn]
        fresh_bank_state) = 1 \<and>
   duplicates_skipped
     (write_bank_loop None [duol_txn, duol_txn]
        fresh_bank_state) = 1"
proof -
  let ?s = fresh_csv_state
  let ?b = fresh_bank_state
  let ?ts = "[migros_txn, migros_txn]"
  let ?bs = "[duol_txn, duol_txn]"
  have e: "first_new trans_tuple (existing_data ?s) ?ts = [0]"
    "later_or_known trans_tuple (existing_data ?s) ?ts = [1]"
    "first_new bank_tuple (bank_existing ?b) ?bs = [0]"
    "later_or_known bank_tuple (bank_existing ?b) ?bs = [1]"
    by (simp_all add: first_new_def later_or_known_def fresh_csv_state_def fresh_bank_state_def
        upt_rec [of 0] upt_rec [of 1] upt_rec [of 2])
  have z: "new_transactions_added ?s = 0" "duplicates_found ?s = 0" "bank_added ?b = 0"
    "duplicates_skipped ?b = 0"
    by (simp_all add: fresh_csv_state_def fresh_bank_state_def)
  note t = first_of_batch_wins [of ?ts ?s "''Duplicate from account statement''" None ?bs ?b None]
  from t have 1: "new_transactions_added (write_csv_loop ''Duplicate from account statement'' None ?ts ?s)
     = new_transactions_added ?s + length (first_new trans_tuple (existing_data ?s) ?ts)"
    by (elim conjE)
  from t have 2: "duplicates_found (write_csv_loop ''Duplicate from account statement'' None ?ts ?s)
     = duplicates_found ?s + length (later_or_known trans_tuple (existing_data ?s) ?ts)"
    by (elim conjE)
  from t have 3: "bank_added (write_bank_loop None ?bs ?b)
     = bank_added ?b + length (first_new bank_tuple (bank_existing ?b) ?bs)"
    by (elim conjE)
  from t have 4: "duplicates_skipped (write_bank_loop None ?bs ?b)
     = duplicates_skipped ?b + length (later_or_known bank_tuple (bank_existing ?b) ?bs)"
    by (elim conjE)
  show ?thesis
    by (simp only: 1 2 3 4 e z) simp
qed

section \<open>Where duplicates go\<close>

text \<open>
  C2, as stated: in each of the three pipelines a candidate whose key is in the set of
  existing keys is written to the sheet \<open>Duplicates\<close>. It fails in the bank pipeline:
  the row \<open>duol_row\<close> gives the candidate \<open>duol_txn\<close>, its key is among the keys of the
  sheet \<open>BCV\<close>, and the workbook saved has no sheet \<open>Duplicates\<close>.
\<close>

theorem bank_duplicate_not_written_counterexample:
  "List.map_filter (bank_txn_of plain_conv (latest_date_of plain_conv [''BCV'' \<mapsto> bcv_with_duol]))
      [duol_row] = [duol_txn] \<and>
   bank_tuple duol_txn \<in> bcv_existing plain_conv bcv_with_duol \<and>
   (case process_bank_statements plain_conv (Some [duol_row]) (Some [''BCV'' \<mapsto> bcv_with_duol]) of
      None \<Rightarrow> False
    | Some wb \<Rightarrow> wb ''Duplicates'' = None)"
  by code_simp

lemma write_csv_duplicates_sheet:
  assumes "sheet_name \<noteq> ''Duplicates''"
  shows "write_csv cv sheet_name headers reason ts wb ''Duplicates''
     = Some (duplicate_worksheet
         (write_csv_loop reason
            (oldest_new_date
               (existing_data (csv_initial cv (get_or_create wb sheet_name headers)
                                 (get_or_create wb ''Duplicates'' headers))) ts)
            ts
            (csv_initial cv (get_or_create wb sheet_name headers)
               (get_or_create wb ''Duplicates'' headers))))"
  using assms by (simp add: write_csv_def Let_def)

lemma bank_keeps_duplicates_sheet:
  "process_bank_statements cv input_file (Some wb) = Some wb' \<Longrightarrow>
   wb' ''Duplicates'' = wb ''Duplicates''"
  by (auto simp: process_bank_statements_def Let_def split: option.splits if_splits)

text \<open>
  C2, amended: in the account-statement and the credit-card pipeline the write phase
  (\<open>write_csv\<close>, run with the reason \<open>Duplicate from account statement\<close> and
  \<open>Duplicate entry\<close>) writes every candidate whose key is in the existing-key set
  when it is processed to the sheet \<open>Duplicates\<close>: one row each, in processing order,
  from the row after the last data row of that sheet, with date, label, amount,
  category and the reason. The bank pipeline only counts such candidates: the workbook
  it saves has the sheet \<open>Duplicates\<close> it was given, or none.
\<close>

theorem duplicates_routing:
  "(process_account_statements cv account_files (Some wb) = Some wb1 \<longrightarrow>
      wb1 = write_csv cv ''Revolut'' account_headers ''Duplicate from account statement''
              (sort_newest_first tx_date (account_transactions account_files)) wb) \<and>
   process_transactions cv (Some df) (Some wb)
     = Some (write_csv cv ''Carte Cred'' cc_headers ''Duplicate entry''
               (sort_newest_first tx_date (List.map_filter (cc_txn cv) df)) wb) \<and>
   (sheet_name \<noteq> ''Duplicates'' \<longrightarrow>
      (\<exists>dsh. write_csv cv sheet_name headers reason ts wb ''Duplicates'' = Some dsh \<and>
         (\<forall>k < length (duplicates trans_tuple
                         (existing_keys cv (get_or_create wb sheet_name headers)
                            (last_data_row (get_or_create wb sheet_name headers))) ts).
            duplicate_row_holds reason dsh
              (last_data_row (get_or_create wb ''Duplicates'' headers) + 1 + k)
              (duplicates trans_tuple
                 (existing_keys cv (get_or_create wb sheet_name headers)
                    (last_data_row (get_or_create wb sheet_name headers))) ts ! k)))) \<and>
   (process_bank_statements cv input_file (Some wb) = Some wb2 \<longrightarrow>
      wb2 ''Duplicates'' = wb ''Duplicates'')"
proof (intro conjI impI)
  assume "process_account_statements cv account_files (Some wb) = Some wb1"
  then show "wb1 = write_csv cv ''Revolut'' account_headers ''Duplicate from account statement''
              (sort_newest_first tx_date (account_transactions account_files)) wb"
    by (auto simp: process_account_statements_def Let_def split: if_splits)
next
  show "process_transactions cv (Some df) (Some wb)
     = Some (write_csv cv ''Carte Cred'' cc_headers ''Duplicate entry''
               (sort_newest_first tx_date (List.map_filter (cc_txn cv) df)) wb)"
    by (simp add: process_transactions_def)
next
  assume n: "sheet_name \<noteq> ''Duplicates''"
  let ?s0 = "csv_initial cv (get_or_create wb sheet_name headers)
               (get_or_create wb ''Duplicates'' headers)"
  let ?X = "existing_keys cv (get_or_create wb sheet_name headers)
              (last_data_row (get_or_create wb sheet_name headers))"
  let ?s1 = "write_csv_loop reason (oldest_new_date (existing_data ?s0) ts) ts ?s0"
  have x: "existing_data ?s0 = ?X"
    "next_duplicate_row ?s0 = last_data_row (get_or_create wb ''Duplicates'' headers) + 1"
    by (simp_all add: csv_initial_def)
  have "duplicate_row_holds reason (duplicate_worksheet ?s1)
          (last_data_row (get_or_create wb ''Duplicates'' headers) + 1 + k)
          (duplicates trans_tuple ?X ts ! k)"
    if "k < length (duplicates trans_tuple ?X ts)" for k
    using csv_loop_dup_rows [of k ?s0 ts reason "oldest_new_date (existing_data ?s0) ts"] that
    unfolding x duplicate_row_holds_def by simp
  then show "\<exists>dsh. write_csv cv sheet_name headers reason ts wb ''Duplicates'' = Some dsh \<and>
         (\<forall>k < length (duplicates trans_tuple ?X ts).
            duplicate_row_holds reason dsh
              (last_data_row (get_or_create wb ''Duplicates'' headers) + 1 + k)
              (duplicates trans_tuple ?X ts ! k))"
    unfolding write_csv_duplicates_sheet [OF n] by blast
next
  assume "process_bank_statements cv input_file (Some wb) = Some wb2"
  then show "wb2 ''Duplicates'' = wb ''Duplicates''"
    by (rule bank_keeps_duplicates_sheet)
qed

theorem duplicates_routing_witness:
  "\<exists>dsh. write_csv plain_conv ''Revolut'' account_headers ''Duplicate from account statement''
            [migros_txn, migros_txn] Map.empty ''Duplicates'' = Some dsh \<and>
         duplicate_row_holds ''Duplicate from account statement'' dsh 2 migros_txn"
proof -
  let ?X = "existing_keys plain_conv (get_or_create Map.empty ''Revolut'' account_headers)
              (last_data_row (get_or_create Map.empty ''Revolut'' account_headers))"
  have l: "last_data_row (new_sheet account_headers) = 1" by code_simp
  have x: "existing_keys plain_conv (new_sheet account_headers) (Suc 0) = {}" by code_simp
  have X: "?X = {}" by (simp add: get_or_create_def l x)
  have d: "duplicates trans_tuple ?X [migros_txn, migros_txn] = [migros_txn]"
    unfolding X by simp
  have n: "''Revolut'' \<noteq> ''Duplicates''" by simp
  from duplicates_routing [of plain_conv "[]" Map.empty Map.empty "[]" "''Revolut''"
      account_headers "''Duplicate from account statement''" "[migros_txn, migros_txn]" None Map.empty]
  have "''Revolut'' \<noteq> ''Duplicates'' \<longrightarrow>
      (\<exists>dsh. write_csv plain_conv ''Revolut'' account_headers ''Duplicate from account statement''
               [migros_txn, migros_txn] Map.empty ''Duplicates'' = Some dsh \<and>
         (\<forall>k < length (duplicates trans_tuple ?X [migros_txn, migros_txn]).
            duplicate_row_holds ''Duplicate from account statement'' dsh
              (last_data_row (get_or_create Map.empty ''Duplicates'' account_headers) + 1 + k)
              (duplicates trans_tuple ?X [migros_txn, migros_txn] ! k)))"
    by (elim conjE)
  with n obtain dsh where
    w: "write_csv plain_conv ''Revolut'' account_headers ''Duplicate from account statement''
               [migros_txn, migros_txn] Map.empty ''Duplicates'' = Some dsh"
    and a: "\<forall>k < length (duplicates trans_tuple ?X [migros_txn, migros_txn]).
            duplicate_row_holds ''Duplicate from account statement'' dsh
              (last_data_row (get_or_create Map.empty ''Duplicates'' account_headers) + 1 + k)
              (duplicates trans_tuple ?X [migros_txn, migros_txn] ! k)"
    by blast
  from a have "duplicate_row_holds ''Duplicate from account statement'' dsh
              (last_data_row (get_or_create Map.empty ''Duplicates'' account_headers) + 1 + 0)
              (duplicates trans_tuple ?X [migros_txn, migros_txn] ! 0)"
    unfolding d by simp
  then have "duplicate_row_holds ''Duplicate from account statement'' dsh 2 migros_txn"
    unfolding d by (simp add: get_or_create_def l numeral_2_eq_2)
  with w show ?thesis by blast
qed

section \<open>Debit and credit in the bank pipeline\<close>

text \<open>
  C7, as stated: every transaction that reaches the ledger of the bank pipeline carries
  debit and credit as non-negative numbers of which at most one is not zero. It fails:
  a row with 30 on the debit side and 20 on the credit side gives a transaction with
  both, and a row with a debit of -5 gives a transaction with that debit.
\<close>

theorem debit_credit_counterexample:
  "map_option (\<lambda>t. (bt_debit t, bt_credit t)) (bank_txn_of plain_conv None both_sides_row)
     = Some (30, 20) \<and>
   map_option (\<lambda>t. (bt_debit t, bt_credit t)) (bank_txn_of plain_conv None negative_row)
     = Some (- 5, 0)"
  by code_simp

lemma amount_of_or_zero:
  "amount_of cv (or_zero PNone) = Some 0"
  "amount_of cv (or_zero (PNum x)) = Some x"
  "amount_of cv (PNum x) = Some x"
  by (simp_all add: amount_of_def or_zero_def py_float_def)

lemma bank_txn_of_Some:
  assumes "bank_txn_of cv latest row = Some t"
  shows "amount_of cv (or_zero (b_debit row)) = Some (bt_debit t)"
    "amount_of cv (or_zero (b_credit row)) = Some (bt_credit t)"
    "\<not> (or_zero (b_debit row) = PNum 0 \<and> or_zero (b_credit row) = PNum 0)"
  using assms
  by (auto simp: bank_txn_of_def Let_def split: if_splits option.splits prod.splits)

text \<open>
  C7, amended: every row whose debit and credit are both absent or zero is dropped, and
  a transaction that reaches the ledger comes from a row of the file and carries that
  row's debit and credit, an absent one as 0, as two independent numbers; when both
  cells are numbers or absent they are not both zero. Nothing makes them non-negative
  or keeps one of them at zero: they are so when the row's are.
\<close>

theorem debit_credit_kept:
  "((b_debit row = PNone \<or> b_debit row = PNum 0) \<and> (b_credit row = PNone \<or> b_credit row = PNum 0)
      \<longrightarrow> bank_txn_of cv latest row = None) \<and>
   (bank_txn_of cv latest row = Some t \<longrightarrow>
      (b_debit row = PNone \<longrightarrow> bt_debit t = 0) \<and>
      (\<forall>x. b_debit row = PNum x \<longrightarrow> bt_debit t = x) \<and>
      (b_credit row = PNone \<longrightarrow> bt_credit t = 0) \<and>
      (\<forall>x. b_credit row = PNum x \<longrightarrow> bt_credit t = x) \<and>
      ((b_debit row = PNone \<or> (\<exists>x. b_debit row = PNum x)) \<and>
       (b_credit row = PNone \<or> (\<exists>x. b_credit row = PNum x))
         \<longrightarrow> bt_debit t \<noteq> 0 \<or> bt_credit t \<noteq> 0)) \<and>
   (\<forall>u \<in> set (List.map_filter (bank_txn_of cv latest) df).
      \<exists>r \<in> set df. bank_txn_of cv latest r = Some u)"
proof (intro conjI impI ballI)
  assume "(b_debit row = PNone \<or> b_debit row = PNum 0) \<and> (b_credit row = PNone \<or> b_credit row = PNum 0)"
  then have "or_zero (b_debit row) = PNum 0" "or_zero (b_credit row) = PNum 0"
    by (auto simp: or_zero_def)
  then show "bank_txn_of cv latest row = None"
    by (simp add: bank_txn_of_def Let_def split: option.splits)
next
  assume a: "bank_txn_of cv latest row = Some t" "b_debit row = PNone"
  from bank_txn_of_Some(1) [OF a(1)] a(2) show "bt_debit t = 0" by (simp add: amount_of_or_zero)
next
  assume a: "bank_txn_of cv latest row = Some t"
  from bank_txn_of_Some(1) [OF a] show "\<forall>x. b_debit row = PNum x \<longrightarrow> bt_debit t = x"
    by (auto simp: amount_of_or_zero)
next
  assume a: "bank_txn_of cv latest row = Some t" "b_credit row = PNone"
  from bank_txn_of_Some(2) [OF a(1)] a(2) show "bt_credit t = 0" by (simp add: amount_of_or_zero)
next
  assume a: "bank_txn_of cv latest row = Some t"
  from bank_txn_of_Some(2) [OF a] show "\<forall>x. b_credit row = PNum x \<longrightarrow> bt_credit t = x"
    by (auto simp: amount_of_or_zero)
next
  assume a: "bank_txn_of cv latest row = Some t"
    and b: "(b_debit row = PNone \<or> (\<exists>x. b_debit row = PNum x)) \<and>
       (b_credit row = PNone \<or> (\<exists>x. b_credit row = PNum x))"
  from bank_txn_of_Some [OF a] b show "bt_debit t \<noteq> 0 \<or> bt_credit t \<noteq> 0"
    by (auto simp: amount_of_or_zero or_zero_def)
next
  fix u assume "u \<in> set (List.map_filter (bank_txn_of cv latest) df)"
  then show "\<exists>r \<in> set df. bank_txn_of cv latest r = Some u"
    by (auto simp: List.map_filter_def)
qed

theorem debit_credit_kept_witness:
  "bank_txn_of plain_conv None empty_amounts_row = None \<and>
   bank_txn_of plain_conv None duol_row = Some duol_txn \<and>
   bt_debit duol_txn = 30 \<and> bt_credit duol_txn = 0"
proof -
  have e: "(b_debit empty_amounts_row = PNone \<or> b_debit empty_amounts_row = PNum 0) \<and>
      (b_credit empty_amounts_row = PNone \<or> b_credit empty_amounts_row = PNum 0)"
    by (simp add: empty_amounts_row_def)
  have d: "bank_txn_of plain_conv None duol_row = Some duol_txn" by code_simp
  have c: "b_debit duol_row = PNum 30" "b_credit duol_row = PNone" by (simp_all add: duol_row_def)
  note t1 = debit_credit_kept [of empty_amounts_row plain_conv None duol_txn "[]"]
  note t2 = debit_credit_kept [of duol_row plain_conv None duol_txn "[]"]
  from t1 e have 1: "bank_txn_of plain_conv None empty_amounts_row = None" by blast
  from t2 d c have 2: "bt_debit duol_txn = 30" "bt_credit duol_txn = 0" by blast+
  from 1 d 2 show ?thesis by simp
qed

section \<open>The watermark of the bank pipeline\<close>

lemma latest_step_None:
  "latest_step cv sh r acc = None \<longleftrightarrow>
     acc = None \<and> cell_date cv (cell_value sh ColA r) = None"
  by (auto simp: latest_step_def split: option.splits)

lemma latest_fold_None:
  "fold (latest_step cv sh) rs acc = None \<longleftrightarrow>
     acc = None \<and> (\<forall>r \<in> set rs. cell_date cv (cell_value sh ColA r) = None)"
proof (induction rs arbitrary: acc)
  case Nil
  then show ?case by simp
next
  case (Cons r rs)
  have "fold (latest_step cv sh) (r # rs) acc = fold (latest_step cv sh) rs (latest_step cv sh r acc)"
    by simp
  then show ?case by (simp only: Cons.IH latest_step_None) auto
qed

lemma latest_step_cases:
  "latest_step cv sh r acc = acc \<or>
   latest_step cv sh r acc = cell_date cv (cell_value sh ColA r)"
  by (auto simp: latest_step_def split: option.splits)

lemma latest_step_ge_acc:
  "acc = Some l \<Longrightarrow> \<exists>w. latest_step cv sh r acc = Some w \<and> dt_key l \<le> dt_key w"
  by (auto simp: latest_step_def split: option.splits)

lemma latest_step_ge_cell:
  "cell_date cv (cell_value sh ColA r) = Some d \<Longrightarrow>
   \<exists>w. latest_step cv sh r acc = Some w \<and> dt_key d \<le> dt_key w"
  by (auto simp: latest_step_def split: option.splits)

lemma latest_fold_Some:
  assumes "fold (latest_step cv sh) rs acc = Some w"
  shows "(acc = Some w \<or> (\<exists>r \<in> set rs. cell_date cv (cell_value sh ColA r) = Some w)) \<and>
         (\<forall>l. acc = Some l \<longrightarrow> dt_key l \<le> dt_key w) \<and>
         (\<forall>r \<in> set rs. \<forall>d. cell_date cv (cell_value sh ColA r) = Some d \<longrightarrow> dt_key d \<le> dt_key w)"
  using assms
proof (induction rs arbitrary: acc)
  case Nil
  then show ?case by simp
next
  case (Cons r rs)
  let ?a = "latest_step cv sh r acc"
  from Cons.prems have f: "fold (latest_step cv sh) rs ?a = Some w" by simp
  note ih = Cons.IH [OF f]
  have 1: "acc = Some w \<or> (\<exists>x \<in> set (r # rs). cell_date cv (cell_value sh ColA x) = Some w)"
    using ih latest_step_cases [of cv sh r acc] by auto
  have 2: "\<forall>l. acc = Some l \<longrightarrow> dt_key l \<le> dt_key w"
  proof (intro allI impI)
    fix l assume "acc = Some l"
    then obtain w' where "?a = Some w'" "dt_key l \<le> dt_key w'"
      using latest_step_ge_acc by blast
    with ih show "dt_key l \<le> dt_key w" by (meson order_trans)
  qed
  have 3: "\<forall>x \<in> set (r # rs). \<forall>d. cell_date cv (cell_value sh ColA x) = Some d \<longrightarrow> dt_key d \<le> dt_key w"
  proof (intro ballI allI impI)
    fix x d assume x: "x \<in> set (r # rs)" and d: "cell_date cv (cell_value sh ColA x) = Some d"
    show "dt_key d \<le> dt_key w"
    proof (cases "x = r")
      case True
      with d obtain w' where "?a = Some w'" "dt_key d \<le> dt_key w'"
        using latest_step_ge_cell by blast
      with ih show ?thesis by (meson order_trans)
    next
      case False
      with x have "x \<in> set rs" by simp
      with ih d show ?thesis by blast
    qed
  qed
  from 1 2 3 show ?case by blast
qed

lemma rows_from_2: "set [2..<n + 1] = {2..n}"
  by auto

lemma bank_txn_of_passes:
  assumes "b_date row \<noteq> PNone" "parse_date cv (b_date row) = Some d" "b_operation row \<noteq> PNone"
    "\<not> (or_zero (b_debit row) = PNum 0 \<and> or_zero (b_credit row) = PNum 0)"
    "amount_of cv (or_zero (b_debit row)) \<noteq> None" "amount_of cv (or_zero (b_credit row)) \<noteq> None"
  shows "bank_txn_of cv None row \<noteq> None"
    "dt_key w < dt_key d \<Longrightarrow> bank_txn_of cv (Some w) row \<noteq> None"
    "\<not> dt_key w < dt_key d \<Longrightarrow> bank_txn_of cv (Some w) row = None"
    "bank_txn_of cv latest row = Some t \<Longrightarrow> bt_date t = d"
  using assms
  by (auto simp: bank_txn_of_def Let_def split: prod.splits option.splits if_splits)

text \<open>
  C6, as stated: the watermark is the latest date that parses in column A of the sheet
  \<open>2025\<close>, and a candidate not later than it is discarded. It fails when a date stands
  in row 1: the scan starts at row 2, so the sheet \<open>sheet_2025_date_in_row_1\<close>, whose
  cell A1 reads 31 December 2025, gives no watermark and the candidate of 13 November
  2025 proceeds.
\<close>

theorem watermark_counterexample:
  "cell_date plain_conv (cell_value sheet_2025_date_in_row_1 ColA 1) = Some (midnight 2025 12 31) \<and>
   \<not> dt_key (midnight 2025 12 31) < dt_key (bt_date duol_txn) \<and>
   latest_date_of plain_conv [''2025'' \<mapsto> sheet_2025_date_in_row_1] = None \<and>
   bank_txn_of plain_conv (latest_date_of plain_conv [''2025'' \<mapsto> sheet_2025_date_in_row_1])
     duol_row = Some duol_txn"
  by code_simp

text \<open>
  C6, amended: the watermark \<open>w\<close> is the latest of the dates of column A of the sheet
  \<open>2025\<close> from row 2 on (row 1 is passed over as the header), where a date cell counts
  as it is and any other non-empty cell as \<open>parse_date\<close> reads it. There is no
  watermark when the sheet is absent or no cell from row 2 on gives a date. A row that
  passes the row checks (date read as \<open>d\<close>, operation present, debit and credit not
  both zero and numeric) becomes a candidate dated \<open>d\<close> when there is no watermark or
  \<open>d\<close> is strictly later than \<open>w\<close>, and is discarded otherwise.
\<close>

theorem watermark_filter:
  "(wb ''2025'' = None \<longrightarrow> latest_date_of cv wb = None) \<and>
   (wb ''2025'' = Some sh \<longrightarrow>
      (latest_date_of cv wb = None \<longleftrightarrow>
         (\<forall>r \<in> {2..max_row sh}. cell_date cv (cell_value sh ColA r) = None)) \<and>
      (\<forall>w. latest_date_of cv wb = Some w \<longrightarrow>
         (\<exists>r \<in> {2..max_row sh}. cell_date cv (cell_value sh ColA r) = Some w) \<and>
         (\<forall>r \<in> {2..max_row sh}. \<forall>d. cell_date cv (cell_value sh ColA r) = Some d \<longrightarrow>
            dt_key d \<le> dt_key w))) \<and>
   (b_date row \<noteq> PNone \<and> parse_date cv (b_date row) = Some d \<and> b_operation row \<noteq> PNone \<and>
    \<not> (or_zero (b_debit row) = PNum 0 \<and> or_zero (b_credit row) = PNum 0) \<and>
    amount_of cv (or_zero (b_debit row)) \<noteq> None \<and> amount_of cv (or_zero (b_credit row)) \<noteq> None
    \<longrightarrow>
      (\<exists>t. bank_txn_of cv None row = Some t \<and> bt_date t = d) \<and>
      (\<forall>w. dt_key w < dt_key d \<longrightarrow> (\<exists>t. bank_txn_of cv (Some w) row = Some t \<and> bt_date t = d)) \<and>
      (\<forall>w. \<not> dt_key w < dt_key d \<longrightarrow> bank_txn_of cv (Some w) row = None))"
proof (intro conjI impI allI)
  assume "wb ''2025'' = None"
  then show "latest_date_of cv wb = None" by (simp add: latest_date_of_def)
next
  assume s: "wb ''2025'' = Some sh"
  then have l: "latest_date_of cv wb = fold (latest_step cv sh) [2..<max_row sh + 1] None"
    by (simp add: latest_date_of_def)
  show "latest_date_of cv wb = None \<longleftrightarrow>
      (\<forall>r \<in> {2..max_row sh}. cell_date cv (cell_value sh ColA r) = None)"
    unfolding l latest_fold_None rows_from_2 by simp
next
  fix w
  assume s: "wb ''2025'' = Some sh" and w: "latest_date_of cv wb = Some w"
  then have "fold (latest_step cv sh) [2..<max_row sh + 1] None = Some w"
    by (simp add: latest_date_of_def)
  from latest_fold_Some [OF this]
  show "\<exists>r \<in> {2..max_row sh}. cell_date cv (cell_value sh ColA r) = Some w"
    unfolding rows_from_2 by simp
next
  fix w
  assume s: "wb ''2025'' = Some sh" and w: "latest_date_of cv wb = Some w"
  then have "fold (latest_step cv sh) [2..<max_row sh + 1] None = Some w"
    by (simp add: latest_date_of_def)
  from latest_fold_Some [OF this]
  show "\<forall>r \<in> {2..max_row sh}. \<forall>d. cell_date cv (cell_value sh ColA r) = Some d \<longrightarrow>
            dt_key d \<le> dt_key w"
    unfolding rows_from_2 by simp
next
  assume a: "b_date row \<noteq> PNone \<and> parse_date cv (b_date row) = Some d \<and> b_operation row \<noteq> PNone \<and>
    \<not> (or_zero (b_debit row) = PNum 0 \<and> or_zero (b_credit row) = PNum 0) \<and>
    amount_of cv (or_zero (b_debit row)) \<noteq> None \<and> amount_of cv (or_zero (b_credit row)) \<noteq> None"
  then have p: "b_date row \<noteq> PNone" "parse_date cv (b_date row) = Some d" "b_operation row \<noteq> PNone"
    "\<not> (or_zero (b_debit row) = PNum 0 \<and> or_zero (b_credit row) = PNum 0)"
    "amount_of cv (or_zero (b_debit row)) \<noteq> None" "amount_of cv (or_zero (b_credit row)) \<noteq> None"
    by simp_all
  show "\<exists>t. bank_txn_of cv None row = Some t \<and> bt_date t = d"
    using bank_txn_of_passes(1) [OF p] bank_txn_of_passes(4) [OF p] by auto
next
  fix w
  assume a: "b_date row \<noteq> PNone \<and> parse_date cv (b_date row) = Some d \<and> b_operation row \<noteq> PNone \<and>
    \<not> (or_zero (b_debit row) = PNum 0 \<and> or_zero (b_credit row) = PNum 0) \<and>
    amount_of cv (or_zero (b_debit row)) \<noteq> None \<and> amount_of cv (or_zero (b_credit row)) \<noteq> None"
    and lt: "dt_key w < dt_key d"
  then have p: "b_date row \<noteq> PNone" "parse_date cv (b_date row) = Some d" "b_operation row \<noteq> PNone"
    "\<not> (or_zero (b_debit row) = PNum 0 \<and> or_zero (b_credit row) = PNum 0)"
    "amount_of cv (or_zero (b_debit row)) \<noteq> None" "amount_of cv (or_zero (b_credit row)) \<noteq> None"
    by simp_all
  show "\<exists>t. bank_txn_of cv (Some w) row = Some t \<and> bt_date t = d"
    using bank_txn_of_passes(2) [OF p lt] bank_txn_of_passes(4) [OF p] by auto
next
  fix w
  assume a: "b_date row \<noteq> PNone \<and> parse_date cv (b_date row) = Some d \<and> b_operation row \<noteq> PNone \<and>
    \<not> (or_zero (b_debit row) = PNum 0 \<and> or_zero (b_credit row) = PNum 0) \<and>
    amount_of cv (or_zero (b_debit row)) \<noteq> None \<and> amount_of cv (or_zero (b_credit row)) \<noteq> None"
    and nlt: "\<not> dt_key w < dt_key d"
  then have p: "b_date row \<noteq> PNone" "parse_date cv (b_date row) = Some d" "b_operation row \<noteq> PNone"
    "\<not> (or_zero (b_debit row) = PNum 0 \<and> or_zero (b_credit row) = PNum 0)"
    "amount_of cv (or_zero (b_debit row)) \<noteq> None" "amount_of cv (or_zero (b_credit row)) \<noteq> None"
    by simp_all
  show "bank_txn_of cv (Some w) row = None"
    by (rule bank_txn_of_passes(3) [OF p nlt])
qed

theorem watermark_filter_witness:
  "latest_date_of plain_conv [''2025'' \<mapsto> sheet_2025_two_dates] = Some (midnight 2025 11 10) \<and>
   (\<exists>t. bank_txn_of plain_conv (Some (midnight 2025 11 10)) duol_row = Some t \<and>
        bt_date t = midnight 2025 11 13) \<and>
   bank_txn_of plain_conv (Some (midnight 2025 11 10)) old_row = None"
proof -
  have l: "latest_date_of plain_conv [''2025'' \<mapsto> sheet_2025_two_dates] = Some (midnight 2025 11 10)"
    by code_simp
  have d: "b_date duol_row \<noteq> PNone \<and>
     parse_date plain_conv (b_date duol_row) = Some (midnight 2025 11 13) \<and>
     b_operation duol_row \<noteq> PNone \<and>
     \<not> (or_zero (b_debit duol_row) = PNum 0 \<and> or_zero (b_credit duol_row) = PNum 0) \<and>
     amount_of plain_conv (or_zero (b_debit duol_row)) \<noteq> None \<and>
     amount_of plain_conv (or_zero (b_credit duol_row)) \<noteq> None"
    by code_simp
  have o: "b_date old_row \<noteq> PNone \<and>
     parse_date plain_conv (b_date old_row) = Some (midnight 2025 11 10) \<and>
     b_operation old_row \<noteq> PNone \<and>
     \<not> (or_zero (b_debit old_row) = PNum 0 \<and> or_zero (b_credit old_row) = PNum 0) \<and>
     amount_of plain_conv (or_zero (b_debit old_row)) \<noteq> None \<and>
     amount_of plain_conv (or_zero (b_credit old_row)) \<noteq> None"
    by code_simp
  have c: "dt_key (midnight 2025 11 10) < dt_key (midnight 2025 11 13)"
    "\<not> dt_key (midnight 2025 11 10) < dt_key (midnight 2025 11 10)"
    by (simp_all add: dt_key_def midnight_def)
  from watermark_filter [of Map.empty plain_conv empty_sheet duol_row "midnight 2025 11 13"] d c(1)
  have 1: "\<exists>t. bank_txn_of plain_conv (Some (midnight 2025 11 10)) duol_row = Some t \<and>
        bt_date t = midnight 2025 11 13"
    by blast
  from watermark_filter [of Map.empty plain_conv empty_sheet old_row "midnight 2025 11 10"] o c(2)
  have 2: "bank_txn_of plain_conv (Some (midnight 2025 11 10)) old_row = None"
    by blast
  from l 1 2 show ?thesis by blast
qed

section \<open>Ledger rows that give no key\<close>

lemma set_map_filter: "y \<in> set (List.map_filter f xs) \<longleftrightarrow> (\<exists>x \<in> set xs. f x = Some y)"
  by (induction xs) (auto simp: map_filter_simps split: option.splits)

lemma rows_from_1: "set [1..<n + 1] = {1..n}"
  by auto

lemma existing_keys_iff:
  "k \<in> existing_keys cv sh n \<longleftrightarrow> (\<exists>r \<in> {1..n}. ledger_key cv sh r = Some k)"
  unfolding existing_keys_def set_map_filter rows_from_1 by (rule refl)

lemma bcv_existing_iff:
  "k \<in> bcv_existing cv sh \<longleftrightarrow> (\<exists>r \<in> {1..max_row sh}. bcv_key cv sh r = Some k)"
  unfolding bcv_existing_def set_map_filter rows_from_1 by (rule refl)

lemma ledger_key_None_iff:
  "ledger_key cv sh r = None \<longleftrightarrow>
     \<not> truthy (cell_value sh ColA r) \<or> \<not> truthy (cell_value sh ColB r) \<or>
     \<not> truthy (cell_value sh ColC r) \<or> py_float cv (cell_value sh ColC r) = None"
  by (auto simp: ledger_key_def Let_def split: option.splits)

lemma bcv_key_None_iff:
  "bcv_key cv sh r = None \<longleftrightarrow>
     \<not> truthy (cell_value sh ColA r) \<or> \<not> truthy (cell_value sh ColB r) \<or>
     (\<not> truthy (cell_value sh ColC r) \<and> \<not> truthy (cell_value sh ColD r)) \<or>
     (truthy (cell_value sh ColC r) \<and> py_float cv (cell_value sh ColC r) = None) \<or>
     (truthy (cell_value sh ColD r) \<and> py_float cv (cell_value sh ColD r) = None)"
  by (auto simp: bcv_key_def Let_def split: option.splits prod.splits)

lemma csv_loop_first_appended:
  assumes "trans_tuple t \<notin> existing_data s"
  shows "ledger_row_holds (worksheet (write_csv_loop reason od (t # ts) s)) (next_row s) t"
    "duplicates trans_tuple (existing_data s) (t # ts)
       = duplicates trans_tuple (insert (trans_tuple t) (existing_data s)) ts"
proof -
  have "0 < length (appended trans_tuple (existing_data s) (t # ts))" using assms by simp
  from csv_loop_rows [OF this, of reason od] assms
  show "ledger_row_holds (worksheet (write_csv_loop reason od (t # ts) s)) (next_row s) t"
    by (simp add: ledger_row_holds_def)
  show "duplicates trans_tuple (existing_data s) (t # ts)
       = duplicates trans_tuple (insert (trans_tuple t) (existing_data s)) ts"
    using assms by simp
qed

lemma bank_loop_first_appended:
  assumes "bank_tuple t \<notin> bank_existing s"
  shows "bcv_row_holds (sheet_bcv (write_bank_loop od (t # ts) s)) (bank_next_row s) t"
proof -
  have "0 < length (appended bank_tuple (bank_existing s) (t # ts))" using assms by simp
  from bank_loop_rows [OF this, of od] assms show ?thesis
    by (simp add: bcv_row_holds_def)
qed

text \<open>
  C10: a ledger row gives no key to the existing-key set exactly when its date, label
  or amount cell is false in a condition (\<open>None\<close>, empty text, zero) or \<open>float\<close>
  refuses the amount; in the bank ledger, when date or label is so, or both debit and
  credit are, or \<open>float\<close> refuses one that is not. The set holds the keys of the other
  rows only. So a candidate at the head of the batch whose key no row gives, as when the
  only row recording it is such a row, is appended in the row after the last data row
  and is not among the duplicates.
\<close>

theorem skipped_rows_give_no_key:
  "(ledger_key cv sh r = None \<longleftrightarrow>
      \<not> truthy (cell_value sh ColA r) \<or> \<not> truthy (cell_value sh ColB r) \<or>
      \<not> truthy (cell_value sh ColC r) \<or> py_float cv (cell_value sh ColC r) = None) \<and>
   (bcv_key cv bsh r = None \<longleftrightarrow>
      \<not> truthy (cell_value bsh ColA r) \<or> \<not> truthy (cell_value bsh ColB r) \<or>
      (\<not> truthy (cell_value bsh ColC r) \<and> \<not> truthy (cell_value bsh ColD r)) \<or>
      (truthy (cell_value bsh ColC r) \<and> py_float cv (cell_value bsh ColC r) = None) \<or>
      (truthy (cell_value bsh ColD r) \<and> py_float cv (cell_value bsh ColD r) = None)) \<and>
   \<not> truthy PNone \<and> \<not> truthy (PStr []) \<and> \<not> truthy (PNum 0) \<and>
   (k \<in> existing_data (csv_initial cv sh dsh) \<longleftrightarrow>
      (\<exists>r \<in> {1..last_data_row sh}. ledger_key cv sh r = Some k)) \<and>
   (bk \<in> bank_existing (bank_initial cv bsh) \<longleftrightarrow>
      (\<exists>r \<in> {1..max_row bsh}. bcv_key cv bsh r = Some bk)) \<and>
   ((\<forall>r \<in> {1..last_data_row sh}. ledger_key cv sh r \<noteq> Some (trans_tuple t)) \<longrightarrow>
      ledger_row_holds
        (worksheet (write_csv_loop reason od (t # ts) (csv_initial cv sh dsh)))
        (last_data_row sh + 1) t \<and>
      duplicates trans_tuple (existing_data (csv_initial cv sh dsh)) (t # ts)
        = duplicates trans_tuple
            (insert (trans_tuple t) (existing_data (csv_initial cv sh dsh))) ts) \<and>
   ((\<forall>r \<in> {1..max_row bsh}. bcv_key cv bsh r \<noteq> Some (bank_tuple bt)) \<longrightarrow>
      bcv_row_holds (sheet_bcv (write_bank_loop obd (bt # bts) (bank_initial cv bsh)))
        (last_data_row bsh + 1) bt)"
proof (intro conjI impI)
  show "ledger_key cv sh r = None \<longleftrightarrow>
      \<not> truthy (cell_value sh ColA r) \<or> \<not> truthy (cell_value sh ColB r) \<or>
      \<not> truthy (cell_value sh ColC r) \<or> py_float cv (cell_value sh ColC r) = None"
    by (rule ledger_key_None_iff)
  show "bcv_key cv bsh r = None \<longleftrightarrow>
      \<not> truthy (cell_value bsh ColA r) \<or> \<not> truthy (cell_value bsh ColB r) \<or>
      (\<not> truthy (cell_value bsh ColC r) \<and> \<not> truthy (cell_value bsh ColD r)) \<or>
      (truthy (cell_value bsh ColC r) \<and> py_float cv (cell_value bsh ColC r) = None) \<or>
      (truthy (cell_value bsh ColD r) \<and> py_float cv (cell_value bsh ColD r) = None)"
    by (rule bcv_key_None_iff)
  show "\<not> truthy PNone" "\<not> truthy (PStr [])" "\<not> truthy (PNum 0)"
    by (simp_all add: truthy_def)
  show "k \<in> existing_data (csv_initial cv sh dsh) \<longleftrightarrow>
      (\<exists>r \<in> {1..last_data_row sh}. ledger_key cv sh r = Some k)"
    by (simp add: csv_initial_def existing_keys_iff)
  show "bk \<in> bank_existing (bank_initial cv bsh) \<longleftrightarrow>
      (\<exists>r \<in> {1..max_row bsh}. bcv_key cv bsh r = Some bk)"
    by (simp add: bank_initial_def bcv_existing_iff)
next
  assume a: "\<forall>r \<in> {1..last_data_row sh}. ledger_key cv sh r \<noteq> Some (trans_tuple t)"
  then have n: "trans_tuple t \<notin> existing_data (csv_initial cv sh dsh)"
    by (simp add: csv_initial_def existing_keys_iff)
  have r: "next_row (csv_initial cv sh dsh) = last_data_row sh + 1"
    by (simp add: csv_initial_def)
  from csv_loop_first_appended(1) [OF n, of reason od ts]
  show "ledger_row_holds
        (worksheet (write_csv_loop reason od (t # ts) (csv_initial cv sh dsh)))
        (last_data_row sh + 1) t"
    by (simp only: r)
  from csv_loop_first_appended(2) [OF n]
  show "duplicates trans_tuple (existing_data (csv_initial cv sh dsh)) (t # ts)
        = duplicates trans_tuple
            (insert (trans_tuple t) (existing_data (csv_initial cv sh dsh))) ts" .
next
  assume a: "\<forall>r \<in> {1..max_row bsh}. bcv_key cv bsh r \<noteq> Some (bank_tuple bt)"
  then have n: "bank_tuple bt \<notin> bank_existing (bank_initial cv bsh)"
    by (simp add: bank_initial_def bcv_existing_iff)
  have r: "bank_next_row (bank_initial cv bsh) = last_data_row bsh + 1"
    by (simp add: bank_initial_def)
  from bank_loop_first_appended [OF n, of obd bts]
  show "bcv_row_holds (sheet_bcv (write_bank_loop obd (bt # bts) (bank_initial cv bsh)))
        (last_data_row bsh + 1) bt"
    by (simp only: r)
qed

theorem skipped_rows_give_no_key_witness:
  "ledger_key plain_conv ledger_with_zero 2 = None \<and>
   ledger_row_holds
     (worksheet (write_csv_loop ''Duplicate entry'' None [zero_txn]
                   (csv_initial plain_conv ledger_with_zero empty_sheet)))
     3 zero_txn"
proof -
  have l: "last_data_row ledger_with_zero = 2" by code_simp
  have k: "ledger_key plain_conv ledger_with_zero 1 = None"
    "ledger_key plain_conv ledger_with_zero 2 = None"
    by code_simp+
  have c: "r = 1 \<or> r = 2" if "r \<in> {1..2::nat}" for r using that by auto
  have a: "\<forall>r \<in> {1..last_data_row ledger_with_zero}.
      ledger_key plain_conv ledger_with_zero r \<noteq> Some (trans_tuple zero_txn)"
    unfolding l using c k by fastforce
  from skipped_rows_give_no_key [of plain_conv ledger_with_zero 2 empty_sheet
      "trans_tuple zero_txn" empty_sheet "bank_tuple duol_txn" zero_txn
      "''Duplicate entry''" None "[]" duol_txn None "[]"] a
  have "ledger_row_holds
     (worksheet (write_csv_loop ''Duplicate entry'' None [zero_txn]
                   (csv_initial plain_conv ledger_with_zero empty_sheet)))
     (last_data_row ledger_with_zero + 1) zero_txn"
    by blast
  with k(2) show ?thesis by (simp add: l)
qed

section \<open>Running a pipeline again\<close>

lemma strftime_dot_not_iso: "strftime_dot d \<noteq> strftime_iso d"
  by (simp add: strftime_dot_def strftime_iso_def pad2_def pad4_def)

lemma written_row_key:
  "ledger_key cv (write_ledger_row od t r sh) r \<noteq> Some (trans_tuple t)"
  by (auto simp: ledger_key_def Let_def write_ledger_row_here date_key_text_def py_str_def
      trans_tuple_def strftime_dot_not_iso split: option.splits)

lemma written_bcv_row_key:
  "bcv_key cv (write_bcv_row od t r sh) r \<noteq> Some (bank_tuple t)"
  by (auto simp: bcv_key_def Let_def write_bcv_row_here date_key_text_def py_str_def
      bank_tuple_def strftime_dot_not_iso split: option.splits prod.splits)

lemma account_run_twice:
  "(case process_account_statements plain_conv [[migros_row]] (Some Map.empty) of
      None \<Rightarrow> False
    | Some wb1 \<Rightarrow>
        (case process_account_statements plain_conv [[migros_row]] (Some wb1) of
           None \<Rightarrow> False
         | Some wb2 \<Rightarrow>
             (case (wb1 ''Revolut'', wb2 ''Revolut'', wb2 ''Duplicates'') of
                (Some sh1, Some sh2, Some dsh2) \<Rightarrow>
                  max_row sh1 = 2 \<and> ledger_row_holds sh1 2 migros_txn \<and>
                  ledger_key plain_conv sh1 2 = Some (''13.11.2025'', ''Migros'', 85 / 2) \<and>
                  trans_tuple migros_txn = (''2025-11-13'', ''Migros'', 85 / 2) \<and>
                  max_row sh2 = 3 \<and> ledger_row_holds sh2 2 migros_txn \<and>
                  ledger_row_holds sh2 3 migros_txn \<and>
                  max_row dsh2 = 1 \<and> cell_value dsh2 ColA 2 = PNone
              | _ \<Rightarrow> False)))"
  by code_simp

text \<open>
  C1 fails on the code. A row the writers append holds its date as the text
  \<open>dd.mm.yyyy\<close>, and read back it gives a key whose date is that text, never the
  \<open>YYYY-MM-DD\<close> of the candidate's key: the key of a row just written differs from the
  key of the candidate written, in the CSV ledgers as in the sheet \<open>BCV\<close>. So the
  account-statement pipeline, run on one card payment and an empty workbook and run
  again on the same file and the workbook it saved, appends the payment a second time,
  in row 3, and writes nothing to the sheet \<open>Duplicates\<close>.
\<close>

theorem second_run_appends_again:
  "ledger_key cv (write_ledger_row od t r sh) r \<noteq> Some (trans_tuple t) \<and>
   bcv_key cv (write_bcv_row obd bt r bsh) r \<noteq> Some (bank_tuple bt) \<and>
   (case process_account_statements plain_conv [[migros_row]] (Some Map.empty) of
      None \<Rightarrow> False
    | Some wb1 \<Rightarrow>
        (case process_account_statements plain_conv [[migros_row]] (Some wb1) of
           None \<Rightarrow> False
         | Some wb2 \<Rightarrow>
             (case (wb1 ''Revolut'', wb2 ''Revolut'', wb2 ''Duplicates'') of
                (Some sh1, Some sh2, Some dsh2) \<Rightarrow>
                  max_row sh1 = 2 \<and> ledger_row_holds sh1 2 migros_txn \<and>
                  ledger_key plain_conv sh1 2 = Some (''13.11.2025'', ''Migros'', 85 / 2) \<and>
                  trans_tuple migros_txn = (''2025-11-13'', ''Migros'', 85 / 2) \<and>
                  max_row sh2 = 3 \<and> ledger_row_holds sh2 2 migros_txn \<and>
                  ledger_row_holds sh2 3 migros_txn \<and>
                  max_row dsh2 = 1 \<and> cell_value dsh2 ColA 2 = PNone
              | _ \<Rightarrow> False)))"
  using written_row_key written_bcv_row_key account_run_twice by (intro conjI)

section \<open>The emphasis on the oldest new rows\<close>

text \<open>
  C5 fails on the code. The account-statement pipeline keeps the time of day in the
  date of a candidate, and takes the oldest date over all candidates whose key the
  ledger does not hold, those included that the loop will turn away as duplicates
  within the batch. With two card payments of the same day, shop and amount, at 14:07:59
  and at 09:00:00, the one of 14:07:59 is processed first and appended, the one of
  09:00:00 goes to the sheet \<open>Duplicates\<close>, and the oldest date is that of 09:00:00: the
  only row appended, which is the oldest of the rows appended, is not bold.
\<close>

theorem oldest_new_row_not_bold:
  "oldest_new_date {} [migros_txn, migros_morning_txn] = Some (tx_date migros_morning_txn) \<and>
   (case process_account_statements plain_conv [[migros_row, migros_row_morning]]
           (Some Map.empty) of
      None \<Rightarrow> False
    | Some wb \<Rightarrow>
        (case (wb ''Revolut'', wb ''Duplicates'') of
           (Some sh, Some dsh) \<Rightarrow>
             max_row sh = 2 \<and> ledger_row_holds sh 2 migros_txn \<and>
             \<not> cbold (cells sh (ColA, 2)) \<and> \<not> cbold (cells sh (ColB, 2)) \<and>
             \<not> cbold (cells sh (ColC, 2)) \<and> \<not> cbold (cells sh (ColE, 2)) \<and>
             duplicate_row_holds ''Duplicate from account statement'' dsh 2 migros_morning_txn
         | _ \<Rightarrow> False))"
  by code_simp

end
